theory Spec2Isabelle
  imports Main "HOL-Library.Multiset" "HOL-Library.Sublist"
begin

text \<open>
  A model of the program that mirrors the issues of a GitLab project into a Notion
  database (\<open>gitlab.js\<close> and the main script), and the properties of it that its
  specification states: how the issues are paged, how pages of the database are matched
  with issues, how the work is split into creates and updates, and in which order and in
  which batches the writes are made.
\<close>

section \<open>JavaScript primitives used by the program\<close>

text \<open>
  Strings are lists of code units; every string the program builds itself is ASCII.
  \<open>issue.iid\<close> is a project-scoped issue number, a non-negative integer, so it is a
  \<open>nat\<close>; JavaScript renders such a number (below \<open>10^21\<close>) by its decimal digits, both
  in \<open>"#" + issue.iid\<close> and when the number is used as a property key.
\<close>

definition digit_char :: "nat \<Rightarrow> char" where
  "digit_char d = ''0123456789'' ! d"

function string_of_nat :: "nat \<Rightarrow> string" where
  "string_of_nat n =
     (if n < 10 then [digit_char n]
      else string_of_nat (n div 10) @ [digit_char (n mod 10)])"
  by pat_completeness auto
termination
  by (relation "measure (\<lambda>n. n)") auto

declare string_of_nat.simps [simp del]

text \<open>\<open>String.prototype.slice(1)\<close>: the string without its first code unit.\<close>

definition slice1 :: "string \<Rightarrow> string" where
  "slice1 s = drop 1 s"

text \<open>\<open>Array.prototype.join(sep)\<close> on an array of strings.\<close>

fun join :: "string \<Rightarrow> string list \<Rightarrow> string" where
  "join sep [] = []"
| "join sep [x] = x"
| "join sep (x # y # ys) = x @ sep @ join sep (y # ys)"

text \<open>
  An array read \<open>xs[i]\<close>: \<open>undefined\<close> (here \<open>None\<close>) outside the array. The index
  \<open>i % n\<close> is \<open>NaN\<close> when \<open>n\<close> is 0, and \<open>xs[NaN]\<close> is \<open>undefined\<close> as well.
\<close>

definition array_at :: "'a list \<Rightarrow> nat \<Rightarrow> 'a option" where
  "array_at xs i = (if i < length xs then Some (xs ! i) else None)"

definition array_at_mod :: "'a list \<Rightarrow> nat \<Rightarrow> 'a option" where
  "array_at_mod xs i = (if length xs = 0 then None else array_at xs (i mod length xs))"

text \<open>
  Truthiness of a value that is a string or \<open>undefined\<close>/\<open>null\<close>: only a non-empty
  string is truthy.
\<close>

fun truthy :: "string option \<Rightarrow> bool" where
  "truthy None = False"
| "truthy (Some s) = (s \<noteq> [])"

text \<open>
  lodash's \<open>_.chunk(array, size)\<close>: consecutive slices of length \<open>size\<close>, the last
  one holding the remaining elements; no chunk at all for an empty array or a size
  below 1.
\<close>

function chunk :: "'a list \<Rightarrow> nat \<Rightarrow> 'a list list" where
  "chunk array n =
     (if array = [] \<or> n < 1 then []
      else take n array # chunk (drop n array) n)"
  by pat_completeness auto
termination
  by (relation "measure (\<lambda>(array, n). length array)") auto

declare chunk.simps [simp del]

section \<open>Data\<close>

text \<open>The fields of a GitLab issue that the program reads (\<open>assignees\<close>: their names).\<close>

record GitLabIssue =
  iid :: nat
  title :: string
  description :: "string option"
  state :: string
  assignees :: "string list"
  labels :: "string list"
  updated_at :: string
  web_url :: string

record GitLabLabel =
  name :: string
  color :: string

text \<open>
  A page of the Notion database, as far as the program reads it: \<open>page.id\<close> and
  \<open>page.properties["id"]\<close> (\<open>None\<close> when the page has no such property) with the
  property's own id and its \<open>rich_text\<close> array, given by the \<open>plain_text\<close> of each
  segment (\<open>None\<close> when the property holds no \<open>rich_text\<close> array).
\<close>

record NotionProperty =
  property_id :: string
  rich_text :: "string list option"

record NotionPage =
  page_id :: string
  properties_id :: "NotionProperty option"

text \<open>The entries \<open>{ pageId, issueNumber }\<close> that the database listing returns.\<close>

record NotionIssue =
  pageId :: string
  issueNumber :: string

text \<open>One rich-text segment of the properties written to Notion.\<close>

record Annotations =
  bold :: bool
  italic :: bool
  strikethrough :: bool
  underline :: bool
  code :: bool
  annotation_color :: string

record RichTextItem =
  content :: "string option"
  link :: "string option"
  annotations :: Annotations
  plain_text :: "string option"
  href :: "string option"

record PageProperties =
  id_rich_text :: "RichTextItem list"
  open_checkbox :: bool
  title_content :: string
  notes_rich_text :: "RichTextItem list"
  assignees_rich_text :: "RichTextItem list"
  last_updated_at :: string
  type_of_work :: "string list"
  tags :: "string list"

record SelectOption =
  option_name :: string
  option_color :: "string option"

record NotionOperations =
  pagesToCreate :: "GitLabIssue list"
  pagesToUpdate :: "(string \<times> GitLabIssue) list"

text \<open>
  \<open>gitLabIssuesIdToNotionPageId\<close>: a plain object used as a dictionary from issue
  number (as a property key) to Notion page id.
\<close>

type_synonym id_map = "string \<rightharpoonup> string"

text \<open>
  \<open>obj[key] = value\<close> with a string value on a plain object: an own property is
  written, except for the key \<open>__proto__\<close>, whose inherited setter ignores a string.
\<close>

definition set_property :: "id_map \<Rightarrow> string \<Rightarrow> string \<Rightarrow> id_map" where
  "set_property obj key v = (if key = ''__proto__'' then obj else obj(key \<mapsto> v))"

text \<open>
  \<open>obj[n]\<close> for a number \<open>n\<close>: the property whose key is the number's string. No
  property of \<open>Object.prototype\<close> has such a key, so only own properties are found.
\<close>

definition get_property :: "id_map \<Rightarrow> nat \<Rightarrow> string option" where
  "get_property obj n = obj (string_of_nat n)"

section \<open>gitlab.js: the properties of a page\<close>

definition default_annotations :: Annotations where
  "default_annotations =
     \<lparr>bold = False, italic = False, strikethrough = False, underline = False,
      code = False, annotation_color = ''default''\<rparr>"

definition getPropertiesFromIssue :: "GitLabIssue \<Rightarrow> PageProperties" where
  "getPropertiesFromIssue issue =
     \<lparr>id_rich_text =
        [\<lparr>content = Some (''#'' @ string_of_nat (iid issue)),
          link = Some (web_url issue),
          annotations = default_annotations,
          plain_text = Some (''#'' @ string_of_nat (iid issue)),
          href = Some (web_url issue)\<rparr>],
      open_checkbox = (state issue = ''opened''),
      title_content = ''G4KMU: '' @ title issue,
      notes_rich_text =
        [\<lparr>content = description issue, link = None,
          annotations = default_annotations, plain_text = None, href = None\<rparr>],
      assignees_rich_text =
        [\<lparr>content = Some (join '', '' (assignees issue)), link = None,
          annotations = default_annotations, plain_text = None, href = None\<rparr>],
      last_updated_at = updated_at issue,
      type_of_work = [''Programming''],
      tags = labels issue\<rparr>"

section \<open>The reconciler\<close>

text \<open>The loop of \<open>getNotionOperations\<close>: one issue is pushed to one of the two arrays.\<close>

fun classify :: "id_map \<Rightarrow> GitLabIssue list \<Rightarrow> NotionOperations \<Rightarrow> NotionOperations" where
  "classify idmap [] ops = ops"
| "classify idmap (issue # issues) ops =
     (let pid = get_property idmap (iid issue) in
      if truthy pid
      then classify idmap issues (ops\<lparr>pagesToUpdate := pagesToUpdate ops @ [(the pid, issue)]\<rparr>)
      else classify idmap issues (ops\<lparr>pagesToCreate := pagesToCreate ops @ [issue]\<rparr>))"

definition getNotionOperations :: "id_map \<Rightarrow> GitLabIssue list \<Rightarrow> NotionOperations" where
  "getNotionOperations idmap issues =
     classify idmap issues \<lparr>pagesToCreate = [], pagesToUpdate = []\<rparr>"

section \<open>The outside world\<close>

text \<open>
  The program talks to two servers and to the console. Every call it makes and every
  line it prints is an event; the history is the list of events so far. A world decides
  the answer to each call from the history before the call and the call's arguments, so
  the answers may depend on everything that was requested earlier. A call that fails
  (a rejected promise) is \<open>Inl\<close> of an error, or \<open>False\<close> where the program ignores
  the value of a fulfilled call.
\<close>

text \<open>
  The errors: a failed \<open>fetch\<close>, a member read on \<open>undefined\<close>, and a Notion call
  that the server rejects.
\<close>

datatype error = TransportError | TypeError | APIResponseError

text \<open>
  The lines of \<open>console.log\<close>, in the order of the source: the number of pages fetched
  from Notion, \<open>oops\<close>, the start and the result of fetching the issues, the number of
  labels, the numbers of issues to add and to update, the size of a completed batch, and
  the final success line.
\<close>

datatype log_line =
    FetchedFromNotion nat
  | Oops
  | FetchingIssues
  | FetchedIssues nat
  | FetchedLabels nat
  | NewIssues nat
  | IssuesToUpdate nat
  | CompletedBatch nat
  | Synced

datatype event =
    DatabasesRetrieve
  | DatabasesQuery "string option"
  | FetchIssues nat nat
  | FetchLabels
  | DatabasesUpdate "SelectOption list"
  | PagesCreate PageProperties
  | PagesUpdate string PageProperties
  | ConsoleLog log_line

record world =
  databases_retrieve :: "event list \<Rightarrow> bool"
  databases_query :: "event list \<Rightarrow> string option \<Rightarrow> error + NotionPage list \<times> string option"
  fetch_issues :: "event list \<Rightarrow> nat \<Rightarrow> nat \<Rightarrow> error + GitLabIssue list"
  fetch_labels :: "event list \<Rightarrow> error + GitLabLabel list"
  databases_update :: "event list \<Rightarrow> SelectOption list \<Rightarrow> bool"
  pages_create :: "event list \<Rightarrow> PageProperties \<Rightarrow> bool"
  pages_update :: "event list \<Rightarrow> string \<Rightarrow> PageProperties \<Rightarrow> bool"

text \<open>
  What a stage returns: the history after it, and either the error that was thrown or
  the stage's value. A stage that may loop forever returns an \<open>option\<close> of that, \<open>None\<close>
  when it never returns.
\<close>

type_synonym 'a result = "event list \<times> (error + 'a)"

section \<open>gitlab.js: listing the issues and the labels\<close>

definition pageSize :: nat where
  "pageSize = 100"

definition assigned :: "GitLabIssue \<Rightarrow> bool" where
  "assigned issue = list_ex (\<lambda>a. a = ''Jan Strich'') (assignees issue)"

text \<open>
  The \<open>do ... while\<close> loop of \<open>getGitLabIssuesForRepository\<close>, entered with the page
  number and the issues pushed so far.
\<close>

partial_function (option) issues_loop ::
  "world \<Rightarrow> nat \<Rightarrow> GitLabIssue list \<Rightarrow> event list \<Rightarrow> (GitLabIssue list) result option" where
  "issues_loop w page issues h =
     (case fetch_issues w h page pageSize of
        Inl e \<Rightarrow> Some (h @ [FetchIssues page pageSize], Inl e)
      | Inr data \<Rightarrow>
          if length data = pageSize
          then issues_loop w (page + 1) (issues @ filter assigned data)
                 (h @ [FetchIssues page pageSize])
          else Some (h @ [FetchIssues page pageSize], Inr (issues @ filter assigned data)))"

definition getGitLabIssuesForRepository ::
  "world \<Rightarrow> event list \<Rightarrow> (GitLabIssue list) result option" where
  "getGitLabIssuesForRepository w h = issues_loop w 1 [] h"

definition getGitLabLabelsForProject :: "world \<Rightarrow> event list \<Rightarrow> (GitLabLabel list) result" where
  "getGitLabLabelsForProject w h = (h @ [FetchLabels], fetch_labels w h)"

section \<open>Listing the pages of the Notion database\<close>

text \<open>The \<open>while (true)\<close> loop that follows the cursors of \<open>notion.databases.query\<close>.\<close>

partial_function (option) query_loop ::
  "world \<Rightarrow> string option \<Rightarrow> NotionPage list \<Rightarrow> event list \<Rightarrow> (NotionPage list) result option" where
  "query_loop w cursor pages h =
     (case databases_query w h cursor of
        Inl e \<Rightarrow> Some (h @ [DatabasesQuery cursor], Inl e)
      | Inr (results, next_cursor) \<Rightarrow>
          if \<not> truthy next_cursor
          then Some (h @ [DatabasesQuery cursor], Inr (pages @ results))
          else query_loop w next_cursor (pages @ results) (h @ [DatabasesQuery cursor]))"

text \<open>
  The expression inside the \<open>try\<close> block,
  \<open>page.properties.id.rich_text[0].plain_text.slice(1)\<close>: reading a member of
  \<open>undefined\<close> throws a \<open>TypeError\<close>.
\<close>

definition read_issueNumber :: "NotionPage \<Rightarrow> error + string" where
  "read_issueNumber page =
     (case properties_id page of
        None \<Rightarrow> Inl TypeError
      | Some prop \<Rightarrow>
          (case rich_text prop of
             None \<Rightarrow> Inl TypeError
           | Some [] \<Rightarrow> Inl TypeError
           | Some (segment # _) \<Rightarrow> Inr (slice1 segment)))"

text \<open>
  The \<open>for\<close> loop over the fetched pages. \<open>page.properties["id"].id\<close> is read before
  the \<open>try\<close> block, so a page without the property throws out of the loop; what the
  \<open>try\<close> block throws is caught and logged.
\<close>

fun collect_issues :: "NotionPage list \<Rightarrow> NotionIssue list \<Rightarrow> event list \<Rightarrow> (NotionIssue list) result" where
  "collect_issues [] issues h = (h, Inr issues)"
| "collect_issues (page # pages) issues h =
     (case properties_id page of
        None \<Rightarrow> (h, Inl TypeError)
      | Some prop \<Rightarrow>
          (case read_issueNumber page of
             Inl e \<Rightarrow> collect_issues pages issues (h @ [ConsoleLog Oops])
           | Inr n \<Rightarrow>
               collect_issues pages
                 (issues @ [\<lparr>pageId = page_id page, issueNumber = n\<rparr>]) h))"

definition getIssuesFromNotionDatabase ::
  "world \<Rightarrow> event list \<Rightarrow> (NotionIssue list) result option" where
  "getIssuesFromNotionDatabase w h =
     (if \<not> databases_retrieve w h then Some (h @ [DatabasesRetrieve], Inl APIResponseError)
      else
        (case query_loop w None [] (h @ [DatabasesRetrieve]) of
           None \<Rightarrow> None
         | Some (h', Inl e) \<Rightarrow> Some (h', Inl e)
         | Some (h', Inr pages) \<Rightarrow>
             Some (collect_issues pages []
                     (h' @ [ConsoleLog (FetchedFromNotion (length pages))]))))"

text \<open>The \<open>for\<close> loop of \<open>setInitialGitLabToNotionIdMap\<close> over the listed entries.\<close>

fun store_ids :: "NotionIssue list \<Rightarrow> id_map \<Rightarrow> id_map" where
  "store_ids [] idmap = idmap"
| "store_ids (entry # entries) idmap =
     store_ids entries (set_property idmap (issueNumber entry) (pageId entry))"

definition setInitialGitLabToNotionIdMap ::
  "world \<Rightarrow> id_map \<Rightarrow> event list \<Rightarrow> id_map result option" where
  "setInitialGitLabToNotionIdMap w idmap h =
     (case getIssuesFromNotionDatabase w h of
        None \<Rightarrow> None
      | Some (h', Inl e) \<Rightarrow> Some (h', Inl e)
      | Some (h', Inr currentIssues) \<Rightarrow> Some (h', Inr (store_ids currentIssues idmap)))"

section \<open>The options of the tags property\<close>

definition availableColors :: "string list" where
  "availableColors =
     [''blue'', ''brown'', ''default'', ''gray'', ''green'', ''orange'', ''pink'',
      ''purple'', ''red'', ''yellow'']"

text \<open>
  \<open>labels.map((l, i) => ({ name: l.name, color: colors[i % colors.length] }))\<close>, with
  the array of colors as a parameter.
\<close>

definition multiSelectOptions :: "string list \<Rightarrow> GitLabLabel list \<Rightarrow> SelectOption list" where
  "multiSelectOptions colors ls =
     map (\<lambda>(i, l). \<lparr>option_name = name l, option_color = array_at_mod colors i\<rparr>)
       (enumerate 0 ls)"

definition updateMultiSelectOptions :: "world \<Rightarrow> GitLabLabel list \<Rightarrow> event list \<Rightarrow> unit result" where
  "updateMultiSelectOptions w ls h =
     (h @ [DatabasesUpdate (multiSelectOptions availableColors ls)],
      if databases_update w h (multiSelectOptions availableColors ls) then Inr ()
      else Inl APIResponseError)"

section \<open>Writing the pages in batches\<close>

definition OPERATION_BATCH_SIZE :: nat where
  "OPERATION_BATCH_SIZE = 10"

text \<open>
  An operation on an item: the call it makes, and whether the promise of that call is
  fulfilled, given the history before the call.
\<close>

type_synonym 'a operation = "event list \<Rightarrow> 'a \<Rightarrow> event \<times> bool"

text \<open>\<open>notion.pages.create({ parent, properties: getPropertiesFromIssue(issue) })\<close>\<close>

definition create_call :: "GitLabIssue \<Rightarrow> event" where
  "create_call issue = PagesCreate (getPropertiesFromIssue issue)"

definition create_operation :: "world \<Rightarrow> GitLabIssue operation" where
  "create_operation w h issue =
     (create_call issue, pages_create w h (getPropertiesFromIssue issue))"

text \<open>
  \<open>({ pageId, ...issue }) => notion.pages.update({ page_id: pageId, properties:
  getPropertiesFromIssue(issue) })\<close>
\<close>

definition update_call :: "string \<times> GitLabIssue \<Rightarrow> event" where
  "update_call item = PagesUpdate (fst item) (getPropertiesFromIssue (snd item))"

definition update_operation :: "world \<Rightarrow> (string \<times> GitLabIssue) operation" where
  "update_operation w h item =
     (update_call item, pages_update w h (fst item) (getPropertiesFromIssue (snd item)))"

text \<open>
  \<open>await Promise.all(batch.map(op))\<close>: \<open>map\<close> makes the call of every item of the
  batch, in order, before anything is awaited; the awaited promise is fulfilled when
  every call's promise is, and rejected as soon as one of them is. The result is the
  history after the calls and whether all were fulfilled.
\<close>

fun promise_all_map :: "'a operation \<Rightarrow> 'a list \<Rightarrow> event list \<Rightarrow> event list \<times> bool" where
  "promise_all_map op [] h = (h, True)"
| "promise_all_map op (item # batch) h =
     (case promise_all_map op batch (h @ [fst (op h item)]) of
        (h', fulfilled) \<Rightarrow> (h', snd (op h item) \<and> fulfilled))"

text \<open>
  The \<open>for\<close> loop over the chunks: a rejected \<open>Promise.all\<close> throws at the \<open>await\<close>,
  which ends the loop and the function; otherwise the batch is logged and the next
  one starts.
\<close>

fun write_batches :: "'a operation \<Rightarrow> 'a list list \<Rightarrow> event list \<Rightarrow> unit result" where
  "write_batches op [] h = (h, Inr ())"
| "write_batches op (batch # batches) h =
     (case promise_all_map op batch h of
        (h', fulfilled) \<Rightarrow>
          if fulfilled
          then write_batches op batches (h' @ [ConsoleLog (CompletedBatch (length batch))])
          else (h', Inl APIResponseError))"

definition createPages :: "world \<Rightarrow> GitLabIssue list \<Rightarrow> event list \<Rightarrow> unit result" where
  "createPages w toCreate h =
     write_batches (create_operation w) (chunk toCreate OPERATION_BATCH_SIZE) h"

definition updatePages :: "world \<Rightarrow> (string \<times> GitLabIssue) list \<Rightarrow> event list \<Rightarrow> unit result" where
  "updatePages w toUpdate h =
     write_batches (update_operation w) (chunk toUpdate OPERATION_BATCH_SIZE) h"

section \<open>The run\<close>

definition syncNotionDatabaseWithGitLab ::
  "world \<Rightarrow> id_map \<Rightarrow> event list \<Rightarrow> unit result option" where
  "syncNotionDatabaseWithGitLab w idmap h =
     (case getGitLabIssuesForRepository w (h @ [ConsoleLog FetchingIssues]) of
        None \<Rightarrow> None
      | Some (h1, Inl e) \<Rightarrow> Some (h1, Inl e)
      | Some (h1, Inr issues) \<Rightarrow>
         (case getGitLabLabelsForProject w (h1 @ [ConsoleLog (FetchedIssues (length issues))]) of
            (h2, Inl e) \<Rightarrow> Some (h2, Inl e)
          | (h2, Inr ls) \<Rightarrow>
             (case updateMultiSelectOptions w ls (h2 @ [ConsoleLog (FetchedLabels (length ls))]) of
                (h3, Inl e) \<Rightarrow> Some (h3, Inl e)
              | (h3, Inr u) \<Rightarrow>
                 (case createPages w (pagesToCreate (getNotionOperations idmap issues))
                         (h3 @ [ConsoleLog (NewIssues
                            (length (pagesToCreate (getNotionOperations idmap issues))))]) of
                    (h4, Inl e) \<Rightarrow> Some (h4, Inl e)
                  | (h4, Inr u) \<Rightarrow>
                     (case updatePages w (pagesToUpdate (getNotionOperations idmap issues))
                             (h4 @ [ConsoleLog (IssuesToUpdate
                                (length (pagesToUpdate (getNotionOperations idmap issues))))]) of
                        (h5, Inl e) \<Rightarrow> Some (h5, Inl e)
                      | (h5, Inr u) \<Rightarrow> Some (h5 @ [ConsoleLog Synced], Inr ()))))))"

text \<open>
  The program: \<open>setInitialGitLabToNotionIdMap().then(syncNotionDatabaseWithGitLab)\<close>,
  started with the empty object and no history.
\<close>

definition main :: "world \<Rightarrow> unit result option" where
  "main w =
     (case setInitialGitLabToNotionIdMap w Map.empty [] of
        None \<Rightarrow> None
      | Some (h, Inl e) \<Rightarrow> Some (h, Inl e)
      | Some (h, Inr idmap) \<Rightarrow> syncNotionDatabaseWithGitLab w idmap h)"

section \<open>Example data\<close>

definition example_issue :: "nat \<Rightarrow> GitLabIssue" where
  "example_issue n =
     \<lparr>iid = n, title = ''Fix it'', description = None, state = ''opened'',
      assignees = [''Jan Strich''], labels = [''bug''], updated_at = ''2024-05-01'',
      web_url = ''https://gitlab.example/issues''\<rparr>"

definition example_page :: "string \<Rightarrow> string \<Rightarrow> NotionPage" where
  "example_page pid txt =
     \<lparr>page_id = pid,
      properties_id = Some \<lparr>property_id = ''%3Dabc'', rich_text = Some [txt]\<rparr>\<rparr>"

text \<open>
  A world in which every call succeeds: the database holds two pages that both carry
  \<open>#1\<close>, GitLab has the issues 1 and 2 and one label.
\<close>

definition example_world :: world where
  "example_world =
     \<lparr>databases_retrieve = (\<lambda>h. True),
      databases_query =
        (\<lambda>h cursor. Inr ([example_page ''page-a'' ''#1'', example_page ''page-b'' ''#1''], None)),
      fetch_issues =
        (\<lambda>h page n. Inr (if page = 1 then [example_issue 1, example_issue 2] else [])),
      fetch_labels = (\<lambda>h. Inr [\<lparr>name = ''bug'', color = ''#ff0000''\<rparr>]),
      databases_update = (\<lambda>h opts. True),
      pages_create = (\<lambda>h props. True),
      pages_update = (\<lambda>h pid props. True)\<rparr>"

text \<open>
  The example world with a GitLab server that answers the request for page \<open>n\<close> with
  the \<open>n\<close>-th of the given pages, and with an empty page beyond them.
\<close>

definition world_with_pages :: "GitLabIssue list list \<Rightarrow> world" where
  "world_with_pages ps =
     example_world
       \<lparr>fetch_issues :=
          (\<lambda>h page n. Inr (if 1 \<le> page \<and> page \<le> length ps then ps ! (page - 1) else []))\<rparr>"

definition unassigned_issue :: "nat \<Rightarrow> GitLabIssue" where
  "unassigned_issue n = (example_issue n)\<lparr>assignees := [''Somebody Else'']\<rparr>"

text \<open>A page whose identity property is there but holds the given \<open>rich_text\<close> value.\<close>

definition page_with_rich_text :: "string \<Rightarrow> string list option \<Rightarrow> NotionPage" where
  "page_with_rich_text pid rt =
     \<lparr>page_id = pid, properties_id = Some \<lparr>property_id = ''%3Dabc'', rich_text = rt\<rparr>\<rparr>"

text \<open>
  The example world in which create call number \<open>n + 1\<close> of the run is rejected and
  every other call succeeds.
\<close>

fun is_create :: "event \<Rightarrow> bool" where
  "is_create (PagesCreate props) = True"
| "is_create e = False"

definition world_rejecting_create :: "nat \<Rightarrow> world" where
  "world_rejecting_create n =
     example_world\<lparr>pages_create := (\<lambda>h props. length (filter is_create h) \<noteq> n)\<rparr>"

text \<open>Twenty-three issues, numbered 1 to 23, and their batches of ten.\<close>

definition first_batch :: "GitLabIssue list" where
  "first_batch =
     [example_issue 1, example_issue 2, example_issue 3, example_issue 4, example_issue 5,
      example_issue 6, example_issue 7, example_issue 8, example_issue 9, example_issue 10]"

definition second_batch :: "GitLabIssue list" where
  "second_batch =
     [example_issue 11, example_issue 12, example_issue 13, example_issue 14, example_issue 15,
      example_issue 16, example_issue 17, example_issue 18, example_issue 19, example_issue 20]"

definition third_batch :: "GitLabIssue list" where
  "third_batch = [example_issue 21, example_issue 22, example_issue 23]"

section \<open>Notions used to state the claims\<close>

text \<open>
  The events of batches that were written to the end: the calls of each batch, in
  order, followed by the line that logs the batch.
\<close>

definition completed :: "('a \<Rightarrow> event) \<Rightarrow> 'a list list \<Rightarrow> event list" where
  "completed call batches =
     concat (map (\<lambda>batch. map call batch @ [ConsoleLog (CompletedBatch (length batch))]) batches)"

text \<open>
  The stage of the run that a call belongs to: 1 building the id map from the Notion
  database, 2 fetching the issues and the labels from GitLab, 3 the taxonomy sync,
  4 the creates, 5 the updates. Console lines belong to no stage.
\<close>

fun stage :: "event \<Rightarrow> nat option" where
  "stage DatabasesRetrieve = Some 1"
| "stage (DatabasesQuery cursor) = Some 1"
| "stage (FetchIssues page n) = Some 2"
| "stage FetchLabels = Some 2"
| "stage (DatabasesUpdate opts) = Some 3"
| "stage (PagesCreate props) = Some 4"
| "stage (PagesUpdate pid props) = Some 5"
| "stage (ConsoleLog l) = None"

definition stages :: "event list \<Rightarrow> nat list" where
  "stages h = List.map_filter stage h"

fun is_write :: "event \<Rightarrow> bool" where
  "is_write (PagesCreate props) = True"
| "is_write (PagesUpdate pid props) = True"
| "is_write e = False"

text \<open>A stage extends the history by calls of its own stage and console lines.\<close>

definition extends :: "nat \<Rightarrow> event list \<Rightarrow> event list \<Rightarrow> bool" where
  "extends i h h' = (\<exists>es. h' = h @ es \<and> set (stages es) \<subseteq> {i})"

text \<open>The calls of a history are in stage order and of no stage after the given one.\<close>

definition ordered_to :: "nat \<Rightarrow> event list \<Rightarrow> bool" where
  "ordered_to i h = (sorted (stages h) \<and> (\<forall>s \<in> set (stages h). s \<le> i))"

section \<open>Numbers as strings\<close>

lemma digit_char_inj: "a < 10 \<Longrightarrow> b < 10 \<Longrightarrow> digit_char a = digit_char b \<Longrightarrow> a = b"
proof -
  assume a: "a < 10" and b: "b < 10" and e: "digit_char a = digit_char b"
  have d: "distinct ''0123456789''" by simp
  from a b e show "a = b"
    unfolding digit_char_def using nth_eq_iff_index_eq [OF d, of a b] by simp
qed

lemma digit_char_in: "d < 10 \<Longrightarrow> digit_char d \<in> set ''0123456789''"
  unfolding digit_char_def by (rule nth_mem) simp

lemma string_of_nat_small: "n < 10 \<Longrightarrow> string_of_nat n = [digit_char n]"
  by (subst string_of_nat.simps) simp

lemma string_of_nat_large:
  "\<not> n < 10 \<Longrightarrow> string_of_nat n = string_of_nat (n div 10) @ [digit_char (n mod 10)]"
  by (subst string_of_nat.simps) simp

lemma string_of_nat_nonempty: "string_of_nat n \<noteq> []"
  by (subst string_of_nat.simps) simp

lemma string_of_nat_last: "last (string_of_nat n) = digit_char (n mod 10)"
  by (subst string_of_nat.simps) simp

text \<open>Two numbers with the same digits are the same number.\<close>

lemma string_of_nat_inj: "string_of_nat a = string_of_nat b \<Longrightarrow> a = b"
proof (induction a arbitrary: b rule: string_of_nat.induct)
  case (1 n)
  show ?case
  proof (cases "n < 10")
    case True
    note l = string_of_nat_small [OF True]
    show ?thesis
    proof (cases "b < 10")
      case b: True
      note r = string_of_nat_small [OF b]
      from l r "1.prems" True b show ?thesis
        by (simp add: digit_char_inj)
    next
      case b: False
      note r = string_of_nat_large [OF b]
      from l r "1.prems" show ?thesis
        by (simp add: string_of_nat_nonempty)
    qed
  next
    case False
    note l = string_of_nat_large [OF False]
    show ?thesis
    proof (cases "b < 10")
      case b: True
      note r = string_of_nat_small [OF b]
      from l r "1.prems" string_of_nat_nonempty [of "n div 10"] show ?thesis
        by auto
    next
      case b: False
      note r = string_of_nat_large [OF b]
      from l r "1.prems" have eq: "string_of_nat (n div 10) = string_of_nat (b div 10)"
        and d: "digit_char (n mod 10) = digit_char (b mod 10)"
        by simp_all
      from "1.IH" [OF False eq] have "n div 10 = b div 10" .
      moreover from d have "n mod 10 = b mod 10"
        by (simp add: digit_char_inj)
      ultimately show ?thesis
        by (metis div_mult_mod_eq)
    qed
  qed
qed

lemma string_of_nat_not_proto: "string_of_nat n \<noteq> ''__proto__''"
proof
  assume "string_of_nat n = ''__proto__''"
  then have "last (string_of_nat n) = CHR ''_''" by simp
  then have "digit_char (n mod 10) = CHR ''_''" by (simp add: string_of_nat_last)
  moreover have "digit_char (n mod 10) \<in> set ''0123456789''"
    by (rule digit_char_in) simp
  ultimately show False
    by simp
qed

lemma string_of_nat_1: "string_of_nat (Suc 0) = ''1''"
  by (simp add: string_of_nat_small digit_char_def)

lemma string_of_nat_2: "string_of_nat 2 = ''2''"
  by (simp add: string_of_nat_small digit_char_def)

lemma string_of_nat_3: "string_of_nat 3 = ''3''"
  by (simp add: string_of_nat_small digit_char_def)

lemma string_of_nat_10000: "string_of_nat 10000 = ''10000''"
  by (simp add: string_of_nat.simps digit_char_def)

lemma iid_example_issue: "iid (example_issue n) = n"
  by (simp add: example_issue_def)

section \<open>The reconciler: what the loop computes\<close>

lemma classify_eq:
  "classify idmap issues ops =
     ops\<lparr>pagesToCreate := pagesToCreate ops @
            filter (\<lambda>i. \<not> truthy (get_property idmap (iid i))) issues,
         pagesToUpdate := pagesToUpdate ops @
            map (\<lambda>i. (the (get_property idmap (iid i)), i))
              (filter (\<lambda>i. truthy (get_property idmap (iid i))) issues)\<rparr>"
  by (induction issues arbitrary: ops) (simp_all add: Let_def)

lemma pagesToCreate_eq:
  "pagesToCreate (getNotionOperations idmap issues) =
     filter (\<lambda>i. \<not> truthy (get_property idmap (iid i))) issues"
  by (simp add: getNotionOperations_def classify_eq)

lemma pagesToUpdate_eq:
  "pagesToUpdate (getNotionOperations idmap issues) =
     map (\<lambda>i. (the (get_property idmap (iid i)), i))
       (filter (\<lambda>i. truthy (get_property idmap (iid i))) issues)"
  by (simp add: getNotionOperations_def classify_eq)

lemma map_snd_pagesToUpdate:
  "map snd (pagesToUpdate (getNotionOperations idmap issues)) =
     filter (\<lambda>i. truthy (get_property idmap (iid i))) issues"
  by (simp add: pagesToUpdate_eq comp_def)

lemma read_issueNumber_rendered:
  assumes "properties_id page = Some prop"
    and "rich_text prop = Some texts"
    and "map Some texts = map plain_text (id_rich_text (getPropertiesFromIssue issue))"
  shows "read_issueNumber page = Inr (string_of_nat (iid issue))"
proof -
  from assms(3) have "texts = [''#'' @ string_of_nat (iid issue)]"
    by (cases texts) (auto simp: getPropertiesFromIssue_def)
  with assms(1,2) show ?thesis
    by (simp add: read_issueNumber_def slice1_def)
qed

section \<open>The options of the tags property: position by position\<close>

lemma multiSelectOptions_nth:
  "i < length ls \<Longrightarrow>
     multiSelectOptions colors ls ! i =
       \<lparr>option_name = name (ls ! i), option_color = array_at_mod colors i\<rparr>"
  by (simp add: multiSelectOptions_def nth_enumerate_eq)

lemma array_at_mod_nonempty:
  "colors \<noteq> [] \<Longrightarrow> array_at_mod colors i = Some (colors ! (i mod length colors))"
  by (simp add: array_at_mod_def array_at_def)

section \<open>The id map: later entries overwrite earlier ones\<close>

lemma store_ids_append: "store_ids (xs @ ys) m = store_ids ys (store_ids xs m)"
  by (induction xs arbitrary: m) simp_all

lemma store_ids_other_keys:
  "\<forall>e \<in> set es. issueNumber e \<noteq> k \<Longrightarrow> store_ids es m k = m k"
  by (induction es arbitrary: m) (auto simp: set_property_def)

lemma store_ids_last_wins:
  assumes "issueNumber e = k" and "k \<noteq> ''__proto__''"
    and "\<forall>e' \<in> set zs. issueNumber e' \<noteq> k"
  shows "store_ids (xs @ e # zs) m k = Some (pageId e)"
  using assms by (simp add: store_ids_append store_ids_other_keys set_property_def)

lemma store_ids_value_only_at:
  "\<forall>k. k \<notin> K \<longrightarrow> m k \<noteq> Some v \<Longrightarrow> v \<notin> pageId ` set es \<Longrightarrow> k \<notin> K \<Longrightarrow>
     store_ids es m k \<noteq> Some v"
proof (induction es arbitrary: m)
  case Nil
  then show ?case by simp
next
  case (Cons e es)
  have "\<forall>k. k \<notin> K \<longrightarrow> set_property m (issueNumber e) (pageId e) k \<noteq> Some v"
    using Cons.prems by (auto simp: set_property_def)
  with Cons.IH [of "set_property m (issueNumber e) (pageId e)"] Cons.prems
  show ?case by simp
qed

lemma overwritten_value_gone:
  assumes d: "distinct (map pageId (xs @ e1 # ys @ e2 # zs))"
    and k: "issueNumber e1 = issueNumber e2"
    and p: "issueNumber e2 \<noteq> ''__proto__''"
  shows "store_ids (xs @ e1 # ys @ e2 # zs) Map.empty k' \<noteq> Some (pageId e1)"
proof -
  let ?v = "pageId e1" and ?k = "issueNumber e2"
  let ?m0 = "store_ids xs Map.empty"
  let ?m1 = "store_ids ys (set_property ?m0 ?k ?v)"
  let ?m2 = "set_property ?m1 ?k (pageId e2)"
  from d have nx: "?v \<notin> pageId ` set xs" and ny: "?v \<notin> pageId ` set ys"
    and nz: "?v \<notin> pageId ` set zs" and ne: "pageId e2 \<noteq> ?v"
    by auto
  have m0: "\<forall>k. k \<notin> {} \<longrightarrow> ?m0 k \<noteq> Some ?v"
    using store_ids_value_only_at [of "{}" Map.empty ?v xs] nx by simp
  then have "\<forall>k. k \<notin> {?k} \<longrightarrow> set_property ?m0 ?k ?v k \<noteq> Some ?v"
    by (simp add: set_property_def)
  then have m1: "\<forall>k. k \<notin> {?k} \<longrightarrow> ?m1 k \<noteq> Some ?v"
    using store_ids_value_only_at [of "{?k}" "set_property ?m0 ?k ?v" ?v ys] ny by blast
  have m2: "\<forall>k. k \<notin> {} \<longrightarrow> ?m2 k \<noteq> Some ?v"
    using m1 ne p by (simp add: set_property_def)
  have "store_ids zs ?m2 k' \<noteq> Some ?v"
    using store_ids_value_only_at [OF m2 nz] by simp
  then show ?thesis
    using k by (simp add: store_ids_append)
qed

lemma update_targets_in_map:
  "pid \<in> fst ` set (pagesToUpdate (getNotionOperations idmap issues)) \<Longrightarrow>
     \<exists>k. idmap k = Some pid"
  by (auto simp: pagesToUpdate_eq get_property_def elim!: truthy.elims)

section \<open>The example world, evaluated\<close>

lemma read_example_page: "read_issueNumber (example_page pid txt) = Inr (slice1 txt)"
  by (simp add: read_issueNumber_def example_page_def)

lemma example_page_fields:
  "page_id (example_page pid txt) = pid"
  "properties_id (example_page pid txt) =
     Some \<lparr>property_id = ''%3Dabc'', rich_text = Some [txt]\<rparr>"
  by (simp_all add: example_page_def)

lemma example_listing:
  "getIssuesFromNotionDatabase example_world [] =
     Some ([DatabasesRetrieve, DatabasesQuery None, ConsoleLog (FetchedFromNotion 2)],
           Inr [\<lparr>pageId = ''page-a'', issueNumber = ''1''\<rparr>,
                \<lparr>pageId = ''page-b'', issueNumber = ''1''\<rparr>])"
proof -
  have q: "query_loop example_world None [] [DatabasesRetrieve] =
      Some ([DatabasesRetrieve, DatabasesQuery None],
            Inr [example_page ''page-a'' ''#1'', example_page ''page-b'' ''#1''])"
    by (subst query_loop.simps) (simp add: example_world_def)
  have c: "\<And>h. collect_issues [example_page ''page-a'' ''#1'', example_page ''page-b'' ''#1''] [] h =
           (h,
            Inr [\<lparr>pageId = ''page-a'', issueNumber = ''1''\<rparr>,
                 \<lparr>pageId = ''page-b'', issueNumber = ''1''\<rparr>])"
    by (simp add: read_example_page example_page_fields slice1_def)
  have r: "databases_retrieve example_world []"
    by (simp add: example_world_def)
  show ?thesis
    by (simp add: getIssuesFromNotionDatabase_def q r c del: collect_issues.simps)
qed

section \<open>Listing the issues: the loop, page by page\<close>

lemma issues_loop_error:
  "fetch_issues w h page pageSize = Inl e \<Longrightarrow>
     issues_loop w page issues h = Some (h @ [FetchIssues page pageSize], Inl e)"
  by (subst issues_loop.simps) simp

lemma issues_loop_short:
  "fetch_issues w h page pageSize = Inr data \<Longrightarrow> length data \<noteq> pageSize \<Longrightarrow>
     issues_loop w page issues h =
       Some (h @ [FetchIssues page pageSize], Inr (issues @ filter assigned data))"
  by (subst issues_loop.simps) simp

lemma issues_loop_full:
  "fetch_issues w h page pageSize = Inr data \<Longrightarrow> length data = pageSize \<Longrightarrow>
     issues_loop w page issues h =
       issues_loop w (page + 1) (issues @ filter assigned data) (h @ [FetchIssues page pageSize])"
  by (subst issues_loop.simps) simp

lemma upt_shift: "[a..<a + Suc n] = a # [a + 1..<a + 1 + n]"
  by (simp del: upt_Suc add: upt_conv_Cons)

lemma issues_loop_pages:
  assumes "ps \<noteq> []"
    and "\<forall>i<length ps. fetch_issues w (h @ map (\<lambda>j. FetchIssues j pageSize) [page..<page + i])
            (page + i) pageSize = Inr (ps ! i)"
    and "\<forall>i<length ps. (length (ps ! i) = pageSize) = (Suc i < length ps)"
  shows "issues_loop w page acc h =
           Some (h @ map (\<lambda>j. FetchIssues j pageSize) [page..<page + length ps],
                 Inr (acc @ concat (map (filter assigned) ps)))"
  using assms
proof (induction ps arbitrary: page acc h)
  case Nil
  then show ?case by simp
next
  case (Cons p ps)
  from Cons.prems(2) have f0: "fetch_issues w h page pageSize = Inr p"
    by fastforce
  show ?case
  proof (cases "ps = []")
    case True
    with Cons.prems(3) have "length p \<noteq> pageSize"
      by simp
    with f0 True show ?thesis
      by (simp add: issues_loop_short)
  next
    case False
    with Cons.prems(3) have full: "length p = pageSize"
      by fastforce
    let ?h = "h @ [FetchIssues page pageSize]"
    have a2: "\<forall>i<length ps. fetch_issues w (?h @ map (\<lambda>j. FetchIssues j pageSize)
                 [page + 1..<page + 1 + i]) (page + 1 + i) pageSize = Inr (ps ! i)"
    proof (intro allI impI)
      fix i assume i: "i < length ps"
      define js where "js = [page + 1..<page + 1 + i]"
      have e: "[page..<page + Suc i] = page # js"
        unfolding js_def by (rule upt_shift)
      from i Cons.prems(2) have "fetch_issues w
           (h @ map (\<lambda>j. FetchIssues j pageSize) [page..<page + Suc i])
           (page + Suc i) pageSize = Inr ((p # ps) ! Suc i)"
        by (metis Suc_less_eq length_Cons)
      then have "fetch_issues w (h @ map (\<lambda>j. FetchIssues j pageSize) (page # js))
           (page + Suc i) pageSize = Inr ((p # ps) ! Suc i)"
        unfolding e .
      then have "fetch_issues w (?h @ map (\<lambda>j. FetchIssues j pageSize) js)
                 (page + 1 + i) pageSize = Inr (ps ! i)"
        by simp
      then show "fetch_issues w (?h @ map (\<lambda>j. FetchIssues j pageSize)
                 [page + 1..<page + 1 + i]) (page + 1 + i) pageSize = Inr (ps ! i)"
        unfolding js_def .
    qed
    have a3: "\<forall>i<length ps. (length (ps ! i) = pageSize) = (Suc i < length ps)"
    proof (intro allI impI)
      fix i assume i: "i < length ps"
      with Cons.prems(3) have "(length ((p # ps) ! Suc i) = pageSize) = (Suc (Suc i) < length (p # ps))"
        by (metis Suc_less_eq length_Cons)
      then show "(length (ps ! i) = pageSize) = (Suc i < length ps)"
        by simp
    qed
    define js where "js = [page + 1..<page + 1 + length ps]"
    have e: "[page..<page + length (p # ps)] = page # js"
      unfolding js_def by (simp only: length_Cons upt_shift)
    have "issues_loop w (page + 1) (acc @ filter assigned p) ?h =
           Some (?h @ map (\<lambda>j. FetchIssues j pageSize) [page + 1..<page + 1 + length ps],
                 Inr ((acc @ filter assigned p) @ concat (map (filter assigned) ps)))"
      using False a2 a3 by (rule Cons.IH)
    then have "issues_loop w (page + 1) (acc @ filter assigned p) ?h =
           Some (?h @ map (\<lambda>j. FetchIssues j pageSize) js,
                 Inr ((acc @ filter assigned p) @ concat (map (filter assigned) ps)))"
      unfolding js_def .
    then have "issues_loop w page acc h =
           Some (h @ map (\<lambda>j. FetchIssues j pageSize) (page # js),
                 Inr (acc @ concat (map (filter assigned) (p # ps))))"
      using f0 full by (simp add: issues_loop_full)
    then show ?thesis
      unfolding e .
  qed
qed

lemma filter_all: "\<forall>x \<in> set xs. P x \<Longrightarrow> filter P xs = xs"
  by (induction xs) simp_all

lemma filter_none: "\<forall>x \<in> set xs. \<not> P x \<Longrightarrow> filter P xs = []"
  by (induction xs) simp_all

lemma length_concat_sizes:
  "map length ps = ns \<Longrightarrow> length (concat ps) = sum_list ns"
  by (auto simp: length_concat)

lemma fetch_world_with_pages:
  "fetch_issues (world_with_pages ps) h page n =
     Inr (if 1 \<le> page \<and> page \<le> length ps then ps ! (page - 1) else [])"
  by (simp add: world_with_pages_def)

lemma assigned_example_issue: "assigned (example_issue n)"
  by (simp add: assigned_def example_issue_def)

lemma not_assigned_unassigned_issue: "\<not> assigned (unassigned_issue n)"
  by (simp add: assigned_def unassigned_issue_def)

section \<open>Listing the pages: which records are kept\<close>

lemma collect_issues_eq:
  "\<forall>p \<in> set pages. properties_id p \<noteq> None \<Longrightarrow>
     collect_issues pages issues h =
       (h @ replicate (length (filter (\<lambda>p. isl (read_issueNumber p)) pages)) (ConsoleLog Oops),
        Inr (issues @
          List.map_filter
            (\<lambda>p. case read_issueNumber p of
                    Inl e \<Rightarrow> None
                  | Inr n \<Rightarrow> Some \<lparr>pageId = page_id p, issueNumber = n\<rparr>) pages))"
proof (induction pages arbitrary: issues h)
  case Nil
  then show ?case by (simp add: List.map_filter_simps)
next
  case (Cons p pages)
  then obtain pr where pr: "properties_id p = Some pr"
    by auto
  from Cons.prems have rest: "\<forall>p \<in> set pages. properties_id p \<noteq> None"
    by simp
  show ?case
  proof (cases "read_issueNumber p")
    case (Inl e)
    with pr Cons.IH [OF rest] show ?thesis
      by (simp add: List.map_filter_simps replicate_app_Cons_same)
  next
    case (Inr n)
    with pr Cons.IH [OF rest] show ?thesis
      by (simp add: List.map_filter_simps)
  qed
qed

lemma read_issueNumber_present:
  "properties_id p = Some prop \<Longrightarrow>
     read_issueNumber p =
       (case rich_text prop of
          None \<Rightarrow> Inl TypeError
        | Some [] \<Rightarrow> Inl TypeError
        | Some (segment # segments) \<Rightarrow> Inr (slice1 segment))"
  by (simp add: read_issueNumber_def)

lemma page_with_rich_text_fields:
  "page_id (page_with_rich_text pid rt) = pid"
  "properties_id (page_with_rich_text pid rt) = Some \<lparr>property_id = ''%3Dabc'', rich_text = rt\<rparr>"
  by (simp_all add: page_with_rich_text_def)

lemma read_page_with_rich_text:
  "read_issueNumber (page_with_rich_text pid None) = Inl TypeError"
  "read_issueNumber (page_with_rich_text pid (Some [])) = Inl TypeError"
  "read_issueNumber (page_with_rich_text pid (Some (segment # segments))) = Inr (slice1 segment)"
  by (simp_all add: read_issueNumber_def page_with_rich_text_def)

section \<open>Writing in batches: chunks, one batch, all batches\<close>

lemma chunk_Nil: "chunk [] n = []"
  by (subst chunk.simps) simp

lemma chunk_step: "xs \<noteq> [] \<Longrightarrow> 0 < n \<Longrightarrow> chunk xs n = take n xs # chunk (drop n xs) n"
  by (subst chunk.simps) simp

lemma concat_chunk: "0 < n \<Longrightarrow> concat (chunk xs n) = xs"
proof (induction xs n rule: chunk.induct)
  case (1 array n)
  show ?case
  proof (cases "array = []")
    case True
    then show ?thesis by (simp add: chunk_Nil)
  next
    case False
    with 1 show ?thesis by (simp add: chunk_step)
  qed
qed

lemma chunk_lengths:
  "0 < n \<Longrightarrow>
     map length (chunk xs n) =
       replicate (length xs div n) n @ (if length xs mod n = 0 then [] else [length xs mod n])"
proof (induction xs n rule: chunk.induct)
  case (1 array n)
  show ?case
  proof (cases "array = []")
    case True
    then show ?thesis by (simp add: chunk_Nil)
  next
    case False
    note ne = this
    with 1 have IH: "map length (chunk (drop n array) n) =
        replicate (length (drop n array) div n) n @
          (if length (drop n array) mod n = 0 then [] else [length (drop n array) mod n])"
      by simp
    show ?thesis
    proof (cases "n \<le> length array")
      case True
      with "1.prems" have d: "length array div n = Suc ((length array - n) div n)"
        and m: "length array mod n = (length array - n) mod n"
        by (simp_all add: le_div_geq le_mod_geq)
      from True have t: "length (take n array) = n" by simp
      show ?thesis
        using ne "1.prems" IH t unfolding d m
        by (simp add: chunk_step)
    next
      case False
      then have s: "length array div n = 0" "length array mod n = length array"
        "take n array = array" "drop n array = []"
        by simp_all
      with ne "1.prems" show ?thesis
        by (simp add: chunk_step chunk_Nil)
    qed
  qed
qed

lemma promise_all_map_history:
  assumes "\<And>h x. fst (op h x) = call x"
  shows "fst (promise_all_map op batch h) = h @ map call batch"
  by (induction batch arbitrary: h) (simp_all add: assms case_prod_beta)

lemma promise_all_map_fulfilled:
  assumes "\<And>h x. fst (op h x) = call x"
  shows "snd (promise_all_map op batch h) =
           (\<forall>i<length batch. snd (op (h @ map call (take i batch)) (batch ! i)))"
proof (induction batch arbitrary: h)
  case Nil
  then show ?case by simp
next
  case (Cons x batch)
  have "(\<forall>i<length (x # batch). snd (op (h @ map call (take i (x # batch))) ((x # batch) ! i))) =
        (snd (op h x) \<and> (\<forall>i<length batch. snd (op ((h @ [call x]) @ map call (take i batch)) (batch ! i))))"
    by (simp add: All_less_Suc2)
  with Cons [of "h @ [call x]"] show ?case
    by (simp add: assms case_prod_beta)
qed

lemma write_batches_Cons:
  assumes "\<And>h x. fst (op h x) = call x"
  shows "write_batches op (batch # batches) h =
           (if snd (promise_all_map op batch h)
            then write_batches op batches
                   (h @ map call batch @ [ConsoleLog (CompletedBatch (length batch))])
            else (h @ map call batch, Inl APIResponseError))"
  using promise_all_map_history [of op call batch h, OF assms]
  by (simp add: case_prod_beta)

lemma completed_Nil: "completed call [] = []"
  by (simp add: completed_def)

lemma completed_Cons:
  "completed call (batch # batches) =
     map call batch @ ConsoleLog (CompletedBatch (length batch)) # completed call batches"
  by (simp add: completed_def)

lemma write_batches_outcome:
  assumes "\<And>h x. fst (op h x) = call x"
  shows "\<exists>k\<le>length batches.
           write_batches op batches h =
             (h @ completed call (take k batches) @
                (if k < length batches then map call (batches ! k) else []),
              if k < length batches then Inl APIResponseError else Inr ())
         \<and> (k < length batches \<longrightarrow>
              \<not> snd (promise_all_map op (batches ! k) (h @ completed call (take k batches))))
         \<and> (\<forall>j<k. snd (promise_all_map op (batches ! j) (h @ completed call (take j batches))))"
proof (induction batches arbitrary: h)
  case Nil
  show ?case by (simp add: completed_Nil)
next
  case (Cons b bs)
  show ?case
  proof (cases "snd (promise_all_map op b h)")
    case False
    then have "write_batches op (b # bs) h = (h @ map call b, Inl APIResponseError)"
      by (simp add: write_batches_Cons [of op call, OF assms] del: write_batches.simps)
    with False show ?thesis
      by (intro exI [of _ 0]) (simp add: completed_Nil)
  next
    case True
    let ?h = "h @ map call b @ [ConsoleLog (CompletedBatch (length b))]"
    from Cons [of ?h] obtain k where k: "k \<le> length bs"
      and w: "write_batches op bs ?h =
             (?h @ completed call (take k bs) @
                (if k < length bs then map call (bs ! k) else []),
              if k < length bs then Inl APIResponseError else Inr ())"
      and r: "k < length bs \<longrightarrow>
              \<not> snd (promise_all_map op (bs ! k) (?h @ completed call (take k bs)))"
      and f: "\<forall>j<k. snd (promise_all_map op (bs ! j) (?h @ completed call (take j bs)))"
      by blast
    have step: "write_batches op (b # bs) h = write_batches op bs ?h"
      using True by (simp add: write_batches_Cons [of op call, OF assms] del: write_batches.simps)
    have "\<forall>j<Suc k. snd (promise_all_map op ((b # bs) ! j) (h @ completed call (take j (b # bs))))"
      using True f by (simp add: All_less_Suc2 completed_Nil completed_Cons)
    with k w r step show ?thesis
      by (intro exI [of _ "Suc k"]) (simp add: completed_Cons)
  qed
qed

lemma write_batches_outcome_ops:
  assumes "\<And>h x. fst (op h x) = call x"
  shows "\<exists>k\<le>length batches.
           write_batches op batches h =
             (h @ completed call (take k batches) @
                (if k < length batches then map call (batches ! k) else []),
              if k < length batches then Inl APIResponseError else Inr ())
         \<and> (k < length batches \<longrightarrow>
              \<not> (\<forall>i<length (batches ! k).
                   snd (op (h @ completed call (take k batches) @ map call (take i (batches ! k)))
                          (batches ! k ! i))))
         \<and> (\<forall>j<k. \<forall>i<length (batches ! j).
              snd (op (h @ completed call (take j batches) @ map call (take i (batches ! j)))
                     (batches ! j ! i)))"
  using write_batches_outcome [of op call batches h, OF assms]
  unfolding promise_all_map_fulfilled [of op call, OF assms]
  by simp

lemma create_operation_fst: "fst (create_operation w h x) = create_call x"
  by (simp add: create_operation_def)

lemma create_operation_snd:
  "snd (create_operation w h x) = pages_create w h (getPropertiesFromIssue x)"
  by (simp add: create_operation_def)

lemma update_operation_fst: "fst (update_operation w h x) = update_call x"
  by (simp add: update_operation_def)

lemma update_operation_snd:
  "snd (update_operation w h x) = pages_update w h (fst x) (getPropertiesFromIssue (snd x))"
  by (simp add: update_operation_def)

lemma chunk_23: "length xs = 23 \<Longrightarrow> map length (chunk xs 10) = [10, 10, 3]"
  using chunk_lengths [of 10 xs] by (simp add: numeral_2_eq_2)

lemma is_create_create_call: "is_create (create_call x)"
  by (simp add: create_call_def)

lemma pages_create_rejecting:
  "pages_create (world_rejecting_create n) h props = (length (filter is_create h) \<noteq> n)"
  by (simp add: world_rejecting_create_def)

lemma create_call_example_eq:
  "(create_call (example_issue a) = create_call (example_issue b)) = (a = b)"
  by (auto simp: create_call_def getPropertiesFromIssue_def example_issue_def
        dest: string_of_nat_inj)

lemma create_call_not_log: "create_call x \<noteq> ConsoleLog l"
  by (simp add: create_call_def)

lemma chunk_example_23:
  "chunk (first_batch @ second_batch @ third_batch) 10 = [first_batch, second_batch, third_batch]"
proof -
  have l: "length first_batch = 10" "length second_batch = 10" "third_batch \<noteq> []"
    "first_batch \<noteq> []" "second_batch \<noteq> []" "length third_batch = 3"
    by (simp_all add: first_batch_def second_batch_def third_batch_def)
  then show ?thesis
    by (simp add: chunk_step chunk_Nil)
qed

lemma promise_all_map_rejecting:
  "promise_all_map (create_operation (world_rejecting_create n)) batch h =
     (h @ map create_call batch,
      \<forall>i<length batch. length (filter is_create h) + i \<noteq> n)"
proof -
  have "\<And>i. length (filter is_create (map create_call (take i batch))) = length (take i batch)"
    by (simp add: is_create_create_call)
  then show ?thesis
    using promise_all_map_history [of "create_operation (world_rejecting_create n)" create_call
        batch h, OF create_operation_fst]
      promise_all_map_fulfilled [of "create_operation (world_rejecting_create n)" create_call
        batch h, OF create_operation_fst]
    by (auto simp: create_operation_snd pages_create_rejecting prod_eq_iff)
qed

section \<open>The stages of a run\<close>

lemma stages_Nil: "stages [] = []"
  by (simp add: stages_def List.map_filter_simps)

lemma stages_append: "stages (h @ es) = stages h @ stages es"
  by (simp add: stages_def map_filter_def)

lemma stages_Cons: "stages (e # es) = (case stage e of None \<Rightarrow> stages es | Some s \<Rightarrow> s # stages es)"
  by (simp add: stages_def List.map_filter_simps split: option.splits)

lemma stage_in_stages: "e \<in> set h \<Longrightarrow> stage e = Some s \<Longrightarrow> s \<in> set (stages h)"
  by (induction h) (auto simp: stages_Cons split: option.splits)

lemma is_write_stage: "is_write e \<Longrightarrow> stage e = Some 4 \<or> stage e = Some 5"
  by (cases e) simp_all

lemma extends_refl: "extends i h h"
  by (auto simp: extends_def stages_Nil intro: exI [of _ "[]"])

lemma extends_trans: "extends i h h' \<Longrightarrow> extends i h' h'' \<Longrightarrow> extends i h h''"
  by (fastforce simp: extends_def stages_append)

lemma extends_log: "extends i h (h @ [ConsoleLog l])"
  by (auto simp: extends_def stages_Cons stages_Nil)

lemma extends_call: "stage e = Some i \<Longrightarrow> extends i h (h @ [e])"
  by (auto simp: extends_def stages_Cons stages_Nil)

lemma ordered_to_Nil: "ordered_to i []"
  by (simp add: ordered_to_def stages_Nil)

lemma sorted_const: "set xs \<subseteq> {i::nat} \<Longrightarrow> sorted xs"
  by (induction xs) auto

lemma ordered_to_extends:
  assumes "ordered_to j h" and "j \<le> i" and "extends i h h'"
  shows "ordered_to i h'"
proof -
  from assms(3) obtain es where es: "h' = h @ es" and s: "set (stages es) \<subseteq> {i}"
    by (auto simp: extends_def)
  from s have "sorted (stages es)"
    by (rule sorted_const)
  with assms(1,2) s show ?thesis
    unfolding ordered_to_def es stages_append sorted_append by fastforce
qed

lemma ordered_to_no_write: "ordered_to i h \<Longrightarrow> e \<in> set h \<Longrightarrow> i \<le> 3 \<Longrightarrow> \<not> is_write e"
proof
  assume u: "ordered_to i h" and e: "e \<in> set h" and i: "i \<le> 3" and w: "is_write e"
  from is_write_stage [OF w] e have "4 \<in> set (stages h) \<or> 5 \<in> set (stages h)"
    by (auto dest: stage_in_stages)
  with u i show False
    by (auto simp: ordered_to_def)
qed

lemma query_loop_extends:
  assumes a: "query_loop w cursor pages h = Some y"
  shows "extends 1 h (fst y)"
proof (rule query_loop.raw_induct [where P = "\<lambda>w cursor pages h y. extends 1 h (fst y)", OF _ a])
  fix loop w cursor pages h y
  assume IH: "\<And>w cursor pages h y. loop w cursor pages h = Some y \<Longrightarrow> extends 1 h (fst y)"
    and eq: "(case databases_query w h cursor of
                Inl e \<Rightarrow> Some (h @ [DatabasesQuery cursor], Inl e)
              | Inr (results, next_cursor) \<Rightarrow>
                  if \<not> truthy next_cursor
                  then Some (h @ [DatabasesQuery cursor], Inr (pages @ results))
                  else loop w next_cursor (pages @ results) (h @ [DatabasesQuery cursor])) = Some y"
  have c: "extends 1 h (h @ [DatabasesQuery cursor])"
    by (rule extends_call) simp
  show "extends 1 h (fst y)"
  proof (cases "databases_query w h cursor")
    case (Inl e)
    with eq have "fst y = h @ [DatabasesQuery cursor]" by auto
    with c show ?thesis by simp
  next
    case (Inr res)
    obtain results next_cursor where res: "res = (results, next_cursor)"
      by (cases res)
    show ?thesis
    proof (cases "truthy next_cursor")
      case False
      with Inr res eq have "fst y = h @ [DatabasesQuery cursor]" by auto
      with c show ?thesis by simp
    next
      case True
      with Inr res eq
      have "loop w next_cursor (pages @ results) (h @ [DatabasesQuery cursor]) = Some y"
        by simp
      then have "extends 1 (h @ [DatabasesQuery cursor]) (fst y)"
        by (rule IH)
      with c show ?thesis by (rule extends_trans)
    qed
  qed
qed

lemma issues_loop_extends:
  assumes a: "issues_loop w page issues h = Some y"
  shows "extends 2 h (fst y)"
proof (rule issues_loop.raw_induct [where P = "\<lambda>w page issues h y. extends 2 h (fst y)", OF _ a])
  fix loop w page issues h y
  assume IH: "\<And>w page issues h y. loop w page issues h = Some y \<Longrightarrow> extends 2 h (fst y)"
    and eq: "(case fetch_issues w h page pageSize of
                Inl e \<Rightarrow> Some (h @ [FetchIssues page pageSize], Inl e)
              | Inr data \<Rightarrow>
                  if length data = pageSize
                  then loop w (page + 1) (issues @ filter assigned data)
                         (h @ [FetchIssues page pageSize])
                  else Some (h @ [FetchIssues page pageSize],
                             Inr (issues @ filter assigned data))) = Some y"
  have c: "extends 2 h (h @ [FetchIssues page pageSize])"
    by (rule extends_call) simp
  show "extends 2 h (fst y)"
  proof (cases "fetch_issues w h page pageSize")
    case (Inl e)
    with eq have "fst y = h @ [FetchIssues page pageSize]" by auto
    with c show ?thesis by simp
  next
    case (Inr data)
    show ?thesis
    proof (cases "length data = pageSize")
      case False
      with Inr eq have "fst y = h @ [FetchIssues page pageSize]" by auto
      with c show ?thesis by simp
    next
      case True
      with Inr eq
      have "loop w (page + 1) (issues @ filter assigned data) (h @ [FetchIssues page pageSize]) = Some y"
        by simp
      then have "extends 2 (h @ [FetchIssues page pageSize]) (fst y)"
        by (rule IH)
      with c show ?thesis by (rule extends_trans)
    qed
  qed
qed

lemma collect_issues_extends: "extends 1 h (fst (collect_issues pages issues h))"
proof (induction pages arbitrary: issues h)
  case Nil
  show ?case by (simp add: extends_refl)
next
  case (Cons p pages)
  show ?case
  proof (cases "properties_id p")
    case None
    then show ?thesis by (simp add: extends_refl)
  next
    case (Some pr)
    show ?thesis
    proof (cases "read_issueNumber p")
      case (Inl e)
      have "extends 1 (h @ [ConsoleLog Oops]) (fst (collect_issues pages issues (h @ [ConsoleLog Oops])))"
        by (rule Cons.IH)
      with extends_log [of 1 h Oops]
      have "extends 1 h (fst (collect_issues pages issues (h @ [ConsoleLog Oops])))"
        by (rule extends_trans)
      with Some Inl show ?thesis by simp
    next
      case (Inr n)
      have "extends 1 h (fst (collect_issues pages
              (issues @ [\<lparr>pageId = page_id p, issueNumber = n\<rparr>]) h))"
        by (rule Cons.IH)
      with Some Inr show ?thesis by simp
    qed
  qed
qed

lemma stages_map_call:
  "(\<And>x. stage (call x) = Some i) \<Longrightarrow> set (stages (map call xs)) \<subseteq> {i}"
  by (induction xs) (simp_all add: stages_Nil stages_Cons)

lemma stages_completed:
  "(\<And>x. stage (call x) = Some i) \<Longrightarrow> set (stages (completed call batches)) \<subseteq> {i}"
proof (induction batches)
  case Nil
  show ?case by (simp add: completed_Nil stages_Nil)
next
  case (Cons b bs)
  then show ?case
    using stages_map_call [of call i b]
    by (auto simp: completed_Cons stages_append stages_Cons)
qed

lemma write_batches_extends:
  assumes "\<And>h x. fst (op h x) = call x" and "\<And>x. stage (call x) = Some i"
  shows "extends i h (fst (write_batches op batches h))"
proof -
  from write_batches_outcome [of op call batches h, OF assms(1)]
  obtain k where "write_batches op batches h =
             (h @ completed call (take k batches) @
                (if k < length batches then map call (batches ! k) else []),
              if k < length batches then Inl APIResponseError else Inr ())"
    by blast
  moreover have "set (stages (completed call (take k batches) @
                (if k < length batches then map call (batches ! k) else []))) \<subseteq> {i}"
    using stages_completed [of call i "take k batches", OF assms(2)]
      stages_map_call [of call i "batches ! k", OF assms(2)]
    by (auto simp: stages_append stages_Nil)
  ultimately show ?thesis
    unfolding extends_def by auto
qed

lemma createPages_extends: "extends 4 h (fst (createPages w xs h))"
  unfolding createPages_def
  by (rule write_batches_extends [of _ create_call])
     (simp_all add: create_operation_def create_call_def)

lemma updatePages_extends: "extends 5 h (fst (updatePages w xs h))"
  unfolding updatePages_def
  by (rule write_batches_extends [of _ update_call])
     (simp_all add: update_operation_def update_call_def)

lemma getIssuesFromNotionDatabase_extends:
  assumes "getIssuesFromNotionDatabase w h = Some y"
  shows "extends 1 h (fst y)"
proof (cases "databases_retrieve w h")
  case False
  have r: "extends 1 h (h @ [DatabasesRetrieve])"
    by (rule extends_call) simp
  from False assms have "fst y = h @ [DatabasesRetrieve]"
    by (auto simp: getIssuesFromNotionDatabase_def)
  with r show ?thesis by simp
next
  case True
  have r: "extends 1 h (h @ [DatabasesRetrieve])"
    by (rule extends_call) simp
  from True assms obtain h1 r1 where q: "query_loop w None [] (h @ [DatabasesRetrieve]) = Some (h1, r1)"
    by (auto simp: getIssuesFromNotionDatabase_def split: option.splits)
  from query_loop_extends [OF q] r have e1: "extends 1 h h1"
    by (auto intro: extends_trans)
  show ?thesis
  proof (cases r1)
    case (Inl e)
    with True assms q e1 show ?thesis
      by (auto simp: getIssuesFromNotionDatabase_def)
  next
    case (Inr pages)
    with True assms q have y: "y = collect_issues pages []
                     (h1 @ [ConsoleLog (FetchedFromNotion (length pages))])"
      by (simp add: getIssuesFromNotionDatabase_def del: collect_issues.simps)
    have "extends 1 h (h1 @ [ConsoleLog (FetchedFromNotion (length pages))])"
      using e1 extends_log by (rule extends_trans)
    then show ?thesis
      unfolding y using collect_issues_extends by (rule extends_trans)
  qed
qed

lemma setInitial_extends:
  "setInitialGitLabToNotionIdMap w idmap h = Some y \<Longrightarrow> extends 1 h (fst y)"
  using getIssuesFromNotionDatabase_extends [of w h]
  by (auto simp: setInitialGitLabToNotionIdMap_def split: option.splits sum.splits)

lemma ordered_to_mono: "ordered_to j h \<Longrightarrow> j \<le> i \<Longrightarrow> ordered_to i h"
  using ordered_to_extends [of j h i h] extends_refl [of i h] by simp

lemma ordered_to_log: "ordered_to i h \<Longrightarrow> ordered_to i (h @ [ConsoleLog l])"
  using ordered_to_extends [of i h i "h @ [ConsoleLog l]"] extends_log [of i h l] by simp

lemma ordered_to_call: "ordered_to j h \<Longrightarrow> j \<le> i \<Longrightarrow> stage e = Some i \<Longrightarrow> ordered_to i (h @ [e])"
  using ordered_to_extends [of j h i "h @ [e]"] extends_call [of e i h] by simp

lemma extends_suffix: "extends i h h' \<Longrightarrow> \<exists>es. h' = h @ es"
  by (auto simp: extends_def)

lemma no_write_yet:
  assumes "ordered_to i h" and "i \<le> 3"
  shows "ordered_to 5 h \<and> ((\<exists>e \<in> set h. is_write e) \<longrightarrow> P)"
proof -
  from assms have "ordered_to 5 h"
    using ordered_to_mono [of i h 5] by simp
  moreover have "\<forall>e \<in> set h. \<not> is_write e"
  proof
    fix e assume "e \<in> set h"
    with assms(1) show "\<not> is_write e"
      by (rule ordered_to_no_write) (rule assms(2))
  qed
  ultimately show ?thesis by blast
qed

text \<open>The two writing stages, entered after a fulfilled taxonomy sync.\<close>

lemma writes_order:
  assumes u: "ordered_to 3 h4"
    and c: "createPages w toCreate (h4 @ [ConsoleLog l1]) = (h5, r5)"
    and res: "(case r5 of
                 Inl e \<Rightarrow> Some (h5, Inl e)
               | Inr u \<Rightarrow>
                  (case updatePages w toUpdate (h5 @ [ConsoleLog l2]) of
                     (h6, Inl e) \<Rightarrow> Some (h6, Inl e)
                   | (h6, Inr u) \<Rightarrow> Some (h6 @ [ConsoleLog Synced], Inr ()))) = Some (hist, r)"
  shows "ordered_to 5 hist \<and> (\<exists>es. hist = h4 @ es)"
proof -
  have "extends 4 (h4 @ [ConsoleLog l1]) h5"
    using createPages_extends [of "h4 @ [ConsoleLog l1]" w toCreate] c by simp
  with extends_log [of 4 h4 l1] have e5: "extends 4 h4 h5"
    by (rule extends_trans)
  with u have u5: "ordered_to 4 h5"
    using ordered_to_extends [of 3 h4 4 h5] by simp
  from e5 obtain es5 where es5: "h5 = h4 @ es5"
    by (auto dest: extends_suffix)
  show ?thesis
  proof (cases r5)
    case (Inl e)
    with res have "hist = h5" by simp
    with u5 es5 show ?thesis
      using ordered_to_mono [of 4 h5 5] by auto
  next
    case (Inr x)
    obtain h6 r6 where up: "updatePages w toUpdate (h5 @ [ConsoleLog l2]) = (h6, r6)"
      by (cases "updatePages w toUpdate (h5 @ [ConsoleLog l2])")
    have "extends 5 (h5 @ [ConsoleLog l2]) h6"
      using updatePages_extends [of "h5 @ [ConsoleLog l2]" w toUpdate] up by simp
    with extends_log [of 5 h5 l2] have e6: "extends 5 h5 h6"
      by (rule extends_trans)
    with u5 have u6: "ordered_to 5 h6"
      using ordered_to_extends [of 4 h5 5 h6] by simp
    from e6 es5 obtain es6 where es6: "h6 = h4 @ es6"
      by (auto dest: extends_suffix)
    show ?thesis
    proof (cases r6)
      case (Inl e)
      with Inr up res have "hist = h6" by simp
      with u6 es6 show ?thesis by auto
    next
      case r6: (Inr y)
      with Inr up res have hist: "hist = h6 @ [ConsoleLog Synced]" by simp
      from u6 have "ordered_to 5 (h6 @ [ConsoleLog Synced])"
        by (rule ordered_to_log)
      moreover from es6 have "h6 @ [ConsoleLog Synced] = h4 @ (es6 @ [ConsoleLog Synced])"
        by simp
      ultimately show ?thesis
        unfolding hist by blast
    qed
  qed
qed

lemma sync_order:
  assumes u: "ordered_to 1 h"
    and s: "syncNotionDatabaseWithGitLab w idmap h = Some (hist, r)"
  shows "ordered_to 5 hist
       \<and> ((\<exists>e \<in> set hist. is_write e) \<longrightarrow>
            (\<exists>before opts after. hist = before @ DatabasesUpdate opts # after
               \<and> databases_update w before opts \<and> (\<forall>e \<in> set before. \<not> is_write e)))"
proof -
  let ?ha = "h @ [ConsoleLog FetchingIssues]"
  from s obtain h2 r2 where g: "getGitLabIssuesForRepository w ?ha = Some (h2, r2)"
    by (auto simp: syncNotionDatabaseWithGitLab_def split: option.splits)
  from u have "ordered_to 1 ?ha" by (rule ordered_to_log)
  moreover have "extends 2 ?ha h2"
    using issues_loop_extends [of w 1 "[]" ?ha "(h2, r2)"] g
    by (simp add: getGitLabIssuesForRepository_def)
  ultimately have u2: "ordered_to 2 h2"
    using ordered_to_extends [of 1 ?ha 2 h2] by simp
  show ?thesis
  proof (cases r2)
    case (Inl e)
    with s g have hist: "hist = h2"
      by (simp add: syncNotionDatabaseWithGitLab_def)
    show ?thesis
      unfolding hist using u2 by (rule no_write_yet) simp
  next
    case (Inr issues)
    let ?hb = "h2 @ [ConsoleLog (FetchedIssues (length issues))]"
    let ?h3 = "?hb @ [FetchLabels]"
    from u2 have "ordered_to 2 ?hb"
      by (rule ordered_to_log)
    then have u3: "ordered_to 2 ?h3"
      using ordered_to_call [of 2 ?hb 2 FetchLabels] by simp
    show ?thesis
    proof (cases "fetch_labels w ?hb")
      case (Inl e)
      with s g Inr have hist: "hist = ?h3"
        by (simp add: syncNotionDatabaseWithGitLab_def getGitLabLabelsForProject_def)
      show ?thesis
        unfolding hist using u3 by (rule no_write_yet) simp
    next
      case ls: (Inr ls)
      let ?hc = "?h3 @ [ConsoleLog (FetchedLabels (length ls))]"
      let ?opts = "multiSelectOptions availableColors ls"
      let ?h4 = "?hc @ [DatabasesUpdate ?opts]"
      from u3 have uc: "ordered_to 2 ?hc" by (rule ordered_to_log)
      then have u4: "ordered_to 3 ?h4"
        using ordered_to_call [of 2 ?hc 3 "DatabasesUpdate ?opts"] by simp
      have nw: "\<forall>e \<in> set ?hc. \<not> is_write e"
      proof
        fix e assume "e \<in> set ?hc"
        with uc show "\<not> is_write e"
          by (rule ordered_to_no_write) simp
      qed
      show ?thesis
      proof (cases "databases_update w ?hc ?opts")
        case False
        with s g Inr ls have hist: "hist = ?h4"
          by (simp add: syncNotionDatabaseWithGitLab_def getGitLabLabelsForProject_def
                updateMultiSelectOptions_def)
        show ?thesis
          unfolding hist using u4 by (rule no_write_yet) simp
      next
        case True
        let ?ops = "getNotionOperations idmap issues"
        obtain h5 r5 where c: "createPages w (pagesToCreate ?ops)
            (?h4 @ [ConsoleLog (NewIssues (length (pagesToCreate ?ops)))]) = (h5, r5)"
          by (cases "createPages w (pagesToCreate ?ops)
            (?h4 @ [ConsoleLog (NewIssues (length (pagesToCreate ?ops)))])")
        from s g Inr ls True c
        have res: "(case r5 of
                 Inl e \<Rightarrow> Some (h5, Inl e)
               | Inr u \<Rightarrow>
                  (case updatePages w (pagesToUpdate ?ops)
                          (h5 @ [ConsoleLog (IssuesToUpdate (length (pagesToUpdate ?ops)))]) of
                     (h6, Inl e) \<Rightarrow> Some (h6, Inl e)
                   | (h6, Inr u) \<Rightarrow> Some (h6 @ [ConsoleLog Synced], Inr ()))) = Some (hist, r)"
          by (simp add: syncNotionDatabaseWithGitLab_def getGitLabLabelsForProject_def
                updateMultiSelectOptions_def split: sum.splits)
        from writes_order [OF u4 c res] obtain es where o: "ordered_to 5 hist"
          and es: "hist = ?h4 @ es"
          by blast
        from es have "hist = ?hc @ DatabasesUpdate ?opts # es"
          by simp
        with True nw have "\<exists>before opts after. hist = before @ DatabasesUpdate opts # after
               \<and> databases_update w before opts \<and> (\<forall>e \<in> set before. \<not> is_write e)"
          by blast
        with o show ?thesis by blast
      qed
    qed
  qed
qed

section \<open>The run in the example world\<close>

lemma example_issues_listing:
  "getGitLabIssuesForRepository example_world h =
     Some (h @ [FetchIssues 1 100], Inr [example_issue 1, example_issue 2])"
proof -
  have "fetch_issues example_world h 1 pageSize = Inr [example_issue 1, example_issue 2]"
    by (simp add: example_world_def)
  from issues_loop_short [OF this, of "[]"] show ?thesis
    by (simp add: getGitLabIssuesForRepository_def pageSize_def assigned_example_issue)
qed

lemma example_options:
  "multiSelectOptions availableColors [\<lparr>name = ''bug'', color = ''#ff0000''\<rparr>] =
     [\<lparr>option_name = ''bug'', option_color = Some ''blue''\<rparr>]"
  by (simp add: multiSelectOptions_def availableColors_def array_at_mod_def array_at_def)

lemma example_operations:
  "getNotionOperations
     (store_ids [\<lparr>pageId = ''page-a'', issueNumber = ''1''\<rparr>,
                 \<lparr>pageId = ''page-b'', issueNumber = ''1''\<rparr>] Map.empty)
     [example_issue 1, example_issue 2] =
     \<lparr>pagesToCreate = [example_issue 2], pagesToUpdate = [(''page-b'', example_issue 1)]\<rparr>"
  by (simp add: getNotionOperations_def get_property_def set_property_def iid_example_issue
        string_of_nat_1 string_of_nat_2)

lemma example_create: "createPages example_world [x] h =
    (h @ [create_call x, ConsoleLog (CompletedBatch 1)], Inr ())"
  by (simp add: createPages_def OPERATION_BATCH_SIZE_def chunk_step chunk_Nil
        create_operation_def example_world_def)

lemma example_update: "updatePages example_world [x] h =
    (h @ [update_call x, ConsoleLog (CompletedBatch 1)], Inr ())"
  by (simp add: updatePages_def OPERATION_BATCH_SIZE_def chunk_step chunk_Nil
        update_operation_def example_world_def)

lemma example_run:
  "main example_world =
     Some ([DatabasesRetrieve, DatabasesQuery None, ConsoleLog (FetchedFromNotion 2),
            ConsoleLog FetchingIssues, FetchIssues 1 100, ConsoleLog (FetchedIssues 2),
            FetchLabels, ConsoleLog (FetchedLabels 1),
            DatabasesUpdate [\<lparr>option_name = ''bug'', option_color = Some ''blue''\<rparr>],
            ConsoleLog (NewIssues 1), create_call (example_issue 2),
            ConsoleLog (CompletedBatch 1),
            ConsoleLog (IssuesToUpdate 1), update_call (''page-b'', example_issue 1),
            ConsoleLog (CompletedBatch 1), ConsoleLog Synced], Inr ())"
proof -
  have l: "fetch_labels example_world h = Inr [\<lparr>name = ''bug'', color = ''#ff0000''\<rparr>]"
    and d: "databases_update example_world h opts" for h opts
    by (simp_all add: example_world_def)
  show ?thesis
    by (simp add: main_def setInitialGitLabToNotionIdMap_def example_listing
        syncNotionDatabaseWithGitLab_def example_issues_listing getGitLabLabelsForProject_def
        updateMultiSelectOptions_def l d example_options
        example_operations [unfolded One_nat_def] example_create
        example_update del: store_ids.simps)
qed

section \<open>The claims\<close>

text \<open>
  C1, as the code has it. Twenty-three issues are written in batches of 10, 10 and 3.
  When the fourth call of the second batch is rejected, all ten calls of the second
  batch have been made, \<open>createPages\<close> ends with the error, and the third batch is
  never written: no call for issue 21 is in the history.
\<close>

theorem later_batches_not_written:
  "map length (chunk (first_batch @ second_batch @ third_batch) 10) = [10, 10, 3]
   \<and> createPages (world_rejecting_create 13) (first_batch @ second_batch @ third_batch) [] =
       (map create_call first_batch @
          ConsoleLog (CompletedBatch 10) # map create_call second_batch,
        Inl APIResponseError)
   \<and> create_call (example_issue 21)
        \<notin> set (fst (createPages (world_rejecting_create 13)
                       (first_batch @ second_batch @ third_batch) []))"
proof -
  have l: "length first_batch = 10" "length second_batch = 10" "length third_batch = 3"
    by (simp_all add: first_batch_def second_batch_def third_batch_def)
  have c: "\<And>xs. length (filter (is_create \<circ> create_call) xs) = length xs"
    by (simp add: is_create_create_call)
  have r: "createPages (world_rejecting_create 13) (first_batch @ second_batch @ third_batch) [] =
       (map create_call first_batch @
          ConsoleLog (CompletedBatch 10) # map create_call second_batch,
        Inl APIResponseError)"
    unfolding createPages_def OPERATION_BATCH_SIZE_def chunk_example_23
    by (simp add: promise_all_map_rejecting l c)
  have n: "create_call (example_issue 21)
        \<notin> set (map create_call first_batch @
          ConsoleLog (CompletedBatch 10) # map create_call second_batch)"
    by (auto simp: create_call_example_eq create_call_not_log first_batch_def second_batch_def)
  show ?thesis
    unfolding r using n l by (simp add: chunk_example_23)
qed

text \<open>
  C1, amended. \<open>createPages\<close> and \<open>updatePages\<close> cut their work list into consecutive
  batches of 10, the last one holding the rest (23 items: 10, 10, 3), and write the
  batches in order. There is a first batch \<open>k\<close> with a rejected call, or none. Every
  batch before it was written to the end: its calls were made in order, all were
  fulfilled, and the batch was logged before the next one started. Of batch \<open>k\<close> every
  call was made, the rejected ones and their siblings alike; then the writer stops with
  the error: the batch is not logged and no later batch is written. When no call is
  rejected, every batch is written and logged and the writer returns normally.
\<close>

theorem batches_written_in_sequence:
  "(let batches = chunk toCreate 10 in
      concat batches = toCreate
      \<and> map length batches =
          replicate (length toCreate div 10) 10 @
            (if length toCreate mod 10 = 0 then [] else [length toCreate mod 10])
      \<and> (length toCreate = 23 \<longrightarrow> map length batches = [10, 10, 3])
      \<and> (\<exists>k\<le>length batches.
            createPages w toCreate h =
              (h @ completed create_call (take k batches) @
                 (if k < length batches then map create_call (batches ! k) else []),
               if k < length batches then Inl APIResponseError else Inr ())
          \<and> (k < length batches \<longrightarrow>
               \<not> (\<forall>i<length (batches ! k).
                    pages_create w
                      (h @ completed create_call (take k batches) @
                         map create_call (take i (batches ! k)))
                      (getPropertiesFromIssue (batches ! k ! i))))
          \<and> (\<forall>j<k. \<forall>i<length (batches ! j).
               pages_create w
                 (h @ completed create_call (take j batches) @
                    map create_call (take i (batches ! j)))
                 (getPropertiesFromIssue (batches ! j ! i)))))
   \<and> (let batches = chunk toUpdate 10 in
      concat batches = toUpdate
      \<and> map length batches =
          replicate (length toUpdate div 10) 10 @
            (if length toUpdate mod 10 = 0 then [] else [length toUpdate mod 10])
      \<and> (length toUpdate = 23 \<longrightarrow> map length batches = [10, 10, 3])
      \<and> (\<exists>k\<le>length batches.
            updatePages w toUpdate h =
              (h @ completed update_call (take k batches) @
                 (if k < length batches then map update_call (batches ! k) else []),
               if k < length batches then Inl APIResponseError else Inr ())
          \<and> (k < length batches \<longrightarrow>
               \<not> (\<forall>i<length (batches ! k).
                    pages_update w
                      (h @ completed update_call (take k batches) @
                         map update_call (take i (batches ! k)))
                      (fst (batches ! k ! i)) (getPropertiesFromIssue (snd (batches ! k ! i)))))
          \<and> (\<forall>j<k. \<forall>i<length (batches ! j).
               pages_update w
                 (h @ completed update_call (take j batches) @
                    map update_call (take i (batches ! j)))
                 (fst (batches ! j ! i)) (getPropertiesFromIssue (snd (batches ! j ! i))))))"
proof -
  have c: "\<And>xs :: GitLabIssue list. concat (chunk xs 10) = xs"
    and u: "\<And>xs :: (string \<times> GitLabIssue) list. concat (chunk xs 10) = xs"
    by (simp_all add: concat_chunk)
  have lc: "\<And>xs :: GitLabIssue list. map length (chunk xs 10) =
          replicate (length xs div 10) 10 @ (if length xs mod 10 = 0 then [] else [length xs mod 10])"
    and lu: "\<And>xs :: (string \<times> GitLabIssue) list. map length (chunk xs 10) =
          replicate (length xs div 10) 10 @ (if length xs mod 10 = 0 then [] else [length xs mod 10])"
    by (simp_all add: chunk_lengths)
  note wc = write_batches_outcome_ops [of "create_operation w" create_call "chunk toCreate 10" h,
      OF create_operation_fst, unfolded create_operation_snd]
  note wu = write_batches_outcome_ops [of "update_operation w" update_call "chunk toUpdate 10" h,
      OF update_operation_fst, unfolded update_operation_snd]
  show ?thesis
    unfolding Let_def createPages_def updatePages_def OPERATION_BATCH_SIZE_def
    using c u lc lu wc wu chunk_23 [of toCreate] chunk_23 [of toUpdate]
    by (intro conjI impI) assumption+
qed

theorem batches_written_in_sequence_witness:
  "createPages (world_rejecting_create 1) (first_batch @ third_batch) [] =
     (map create_call first_batch, Inl APIResponseError)"
proof -
  let ?items = "first_batch @ third_batch"
  let ?w = "world_rejecting_create 1"
  have l: "length first_batch = 10" "first_batch \<noteq> []" "third_batch \<noteq> []"
    "length third_batch = 3"
    by (simp_all add: first_batch_def third_batch_def)
  then have ch: "chunk ?items 10 = [first_batch, third_batch]"
    by (simp add: chunk_step chunk_Nil)
  from batches_written_in_sequence [of ?items ?w "[]" "[]"]
  obtain k where k: "k \<le> length (chunk ?items 10)"
    and r: "createPages ?w ?items [] =
              ([] @ completed create_call (take k (chunk ?items 10)) @
                 (if k < length (chunk ?items 10) then map create_call (chunk ?items 10 ! k) else []),
               if k < length (chunk ?items 10) then Inl APIResponseError else Inr ())"
    and f: "\<forall>j<k. \<forall>i<length (chunk ?items 10 ! j).
               pages_create ?w
                 ([] @ completed create_call (take j (chunk ?items 10)) @
                    map create_call (take i (chunk ?items 10 ! j)))
                 (getPropertiesFromIssue (chunk ?items 10 ! j ! i))"
    unfolding Let_def by blast
  have "k = 0"
  proof (rule ccontr)
    assume "k \<noteq> 0"
    then have "0 < k" by simp
    with f have "\<forall>i<length (chunk ?items 10 ! 0).
               pages_create ?w
                 ([] @ completed create_call (take 0 (chunk ?items 10)) @
                    map create_call (take i (chunk ?items 10 ! 0)))
                 (getPropertiesFromIssue (chunk ?items 10 ! 0 ! i))"
      by blast
    then have "pages_create ?w
                 ([] @ completed create_call (take 0 (chunk ?items 10)) @
                    map create_call (take 1 (chunk ?items 10 ! 0)))
                 (getPropertiesFromIssue (chunk ?items 10 ! 0 ! 1))"
      unfolding ch using l by simp
    then show False
      unfolding ch using l
      by (simp add: pages_create_rejecting is_create_create_call completed_def)
  qed
  with r show ?thesis
    unfolding ch by (simp add: completed_def)
qed

text \<open>
  C3. Identity round trip. For an issue whose number is between 1 and 10000, the
  identity property is rendered as one segment whose plain text is \<open>#\<close> followed by
  the number, equal to its display text. A page whose identity property holds the
  rendered plain text is read back by the database listing as the text of the number:
  the only number with that text is the issue's own, the listing returns the page under
  it, and looking the issue's number up in the map built from that entry finds the page.
\<close>

theorem identity_round_trip:
  assumes "1 \<le> iid issue" and "iid issue \<le> 10000"
    and "properties_id page = Some prop"
    and "rich_text prop = Some texts"
    and "map Some texts = map plain_text (id_rich_text (getPropertiesFromIssue issue))"
  shows "map plain_text (id_rich_text (getPropertiesFromIssue issue)) =
           [Some (''#'' @ string_of_nat (iid issue))]
       \<and> map content (id_rich_text (getPropertiesFromIssue issue)) =
           map plain_text (id_rich_text (getPropertiesFromIssue issue))
       \<and> read_issueNumber page = Inr (string_of_nat (iid issue))
       \<and> (\<forall>n. string_of_nat n = string_of_nat (iid issue) \<longrightarrow> n = iid issue)
       \<and> collect_issues [page] [] h =
           (h, Inr [\<lparr>pageId = page_id page, issueNumber = string_of_nat (iid issue)\<rparr>])
       \<and> get_property
           (store_ids [\<lparr>pageId = page_id page, issueNumber = string_of_nat (iid issue)\<rparr>] Map.empty)
           (iid issue) = Some (page_id page)"
proof -
  have r: "read_issueNumber page = Inr (string_of_nat (iid issue))"
    using assms(3-5) by (rule read_issueNumber_rendered)
  have "collect_issues [page] [] h =
           (h, Inr [\<lparr>pageId = page_id page, issueNumber = string_of_nat (iid issue)\<rparr>])"
    using assms(3) r by simp
  moreover have "get_property
           (store_ids [\<lparr>pageId = page_id page, issueNumber = string_of_nat (iid issue)\<rparr>] Map.empty)
           (iid issue) = Some (page_id page)"
    by (simp add: get_property_def set_property_def string_of_nat_not_proto)
  moreover have "\<forall>n. string_of_nat n = string_of_nat (iid issue) \<longrightarrow> n = iid issue"
    by (auto dest: string_of_nat_inj)
  ultimately show ?thesis
    using r by (simp add: getPropertiesFromIssue_def)
qed

theorem identity_round_trip_witness:
  "read_issueNumber
     \<lparr>page_id = ''p1'',
      properties_id = Some \<lparr>property_id = ''x'', rich_text = Some [''#10000'']\<rparr>\<rparr> = Inr ''10000''
   \<and> string_of_nat 10000 = ''10000''"
  using identity_round_trip [of
      "\<lparr>iid = 10000, title = ''t'', description = None, state = ''opened'', assignees = [],
        labels = [], updated_at = ''d'', web_url = ''u''\<rparr>"
      "\<lparr>page_id = ''p1'',
        properties_id = Some \<lparr>property_id = ''x'', rich_text = Some [''#10000'']\<rparr>\<rparr>"
      "\<lparr>property_id = ''x'', rich_text = Some [''#10000'']\<rparr>" "[''#10000'']" "[]"]
  by (simp add: getPropertiesFromIssue_def string_of_nat_10000)

text \<open>
  C4. Classification is complete and disjoint. For every list of issues and every id
  map, the two lists of \<open>getNotionOperations\<close> together have as many entries as the
  input, no issue is in both, and together they hold every input issue exactly as often
  as the input does. An issue is in the updates (with the page id found) when the lookup
  of its number is truthy and in the creates otherwise; when no stored page id is the
  empty string, the lookup is truthy exactly when the map has the number as a key.
\<close>

theorem classification_complete_disjoint:
  "length (pagesToCreate (getNotionOperations idmap issues)) +
     length (pagesToUpdate (getNotionOperations idmap issues)) = length issues
   \<and> set (pagesToCreate (getNotionOperations idmap issues)) \<inter>
       snd ` set (pagesToUpdate (getNotionOperations idmap issues)) = {}
   \<and> mset (pagesToCreate (getNotionOperations idmap issues)) +
       mset (map snd (pagesToUpdate (getNotionOperations idmap issues))) = mset issues
   \<and> (\<forall>issue \<in> set issues.
        if truthy (get_property idmap (iid issue))
        then (the (get_property idmap (iid issue)), issue)
               \<in> set (pagesToUpdate (getNotionOperations idmap issues))
             \<and> issue \<notin> set (pagesToCreate (getNotionOperations idmap issues))
        else issue \<in> set (pagesToCreate (getNotionOperations idmap issues))
             \<and> issue \<notin> snd ` set (pagesToUpdate (getNotionOperations idmap issues)))
   \<and> ((\<forall>v \<in> ran idmap. v \<noteq> []) \<longrightarrow>
        (\<forall>n. truthy (get_property idmap n) = (string_of_nat n \<in> dom idmap)))"
proof -
  let ?P = "\<lambda>i. truthy (get_property idmap (iid i))"
  have len: "length (filter (\<lambda>i. \<not> ?P i) issues) + length (filter ?P issues) = length issues"
    using sum_length_filter_compl [of ?P issues] by simp
  have ms: "mset (filter (\<lambda>i. \<not> ?P i) issues) + mset (filter ?P issues) = mset issues"
    by (induction issues) simp_all
  have tr: "(\<forall>v \<in> ran idmap. v \<noteq> []) \<longrightarrow>
        (\<forall>n. truthy (get_property idmap n) = (string_of_nat n \<in> dom idmap))"
  proof (intro impI allI)
    fix n
    assume a: "\<forall>v \<in> ran idmap. v \<noteq> []"
    show "truthy (get_property idmap n) = (string_of_nat n \<in> dom idmap)"
    proof (cases "idmap (string_of_nat n)")
      case None
      then show ?thesis by (simp add: get_property_def dom_def)
    next
      case (Some v)
      then have "v \<in> ran idmap" by (auto simp: ran_def)
      with a have "v \<noteq> []" by blast
      with Some show ?thesis by (simp add: get_property_def dom_def)
    qed
  qed
  show ?thesis
    unfolding pagesToCreate_eq pagesToUpdate_eq
    using len ms tr by (auto simp: comp_def image_iff)
qed

theorem classification_complete_disjoint_witness:
  "length (pagesToCreate (getNotionOperations [''1'' \<mapsto> ''page-1''] [example_issue 1, example_issue 2])) +
     length (pagesToUpdate (getNotionOperations [''1'' \<mapsto> ''page-1''] [example_issue 1, example_issue 2])) = 2
   \<and> (''page-1'', example_issue 1)
        \<in> set (pagesToUpdate (getNotionOperations [''1'' \<mapsto> ''page-1''] [example_issue 1, example_issue 2]))
   \<and> example_issue 2
        \<in> set (pagesToCreate (getNotionOperations [''1'' \<mapsto> ''page-1''] [example_issue 1, example_issue 2]))
   \<and> truthy (get_property [''1'' \<mapsto> ''page-1''] 2) = (''2'' \<in> dom [''1'' \<mapsto> ''page-1''])"
proof -
  let ?m = "[''1'' \<mapsto> ''page-1'']"
  have t1: "get_property ?m (iid (example_issue 1)) = Some ''page-1''"
    by (simp add: get_property_def iid_example_issue string_of_nat_1)
  have t2: "get_property ?m (iid (example_issue 2)) = None"
    by (simp add: get_property_def iid_example_issue string_of_nat_2)
  have r: "\<forall>v \<in> ran ?m. v \<noteq> []"
    by simp
  from classification_complete_disjoint [of ?m "[example_issue 1, example_issue 2]"] t1 t2 r
  show ?thesis
    by (simp add: string_of_nat_2)
qed

text \<open>
  C5. Order is preserved. For every list of issues and every id map, the creates are
  the input issues whose lookup is not truthy, in input order, and the issues of the
  updates are the input issues whose lookup is truthy, in input order: each list is a
  subsequence of the input.
\<close>

theorem classification_order_preserved:
  "pagesToCreate (getNotionOperations idmap issues) =
     filter (\<lambda>i. \<not> truthy (get_property idmap (iid i))) issues
   \<and> map snd (pagesToUpdate (getNotionOperations idmap issues)) =
     filter (\<lambda>i. truthy (get_property idmap (iid i))) issues
   \<and> subseq (pagesToCreate (getNotionOperations idmap issues)) issues
   \<and> subseq (map snd (pagesToUpdate (getNotionOperations idmap issues))) issues"
  by (simp add: pagesToCreate_eq map_snd_pagesToUpdate)

theorem classification_order_preserved_witness:
  "pagesToCreate (getNotionOperations [''2'' \<mapsto> ''page-2'']
      [example_issue 1, example_issue 2, example_issue 3]) = [example_issue 1, example_issue 3]
   \<and> map snd (pagesToUpdate (getNotionOperations [''2'' \<mapsto> ''page-2'']
      [example_issue 1, example_issue 2, example_issue 3])) = [example_issue 2]"
  using classification_order_preserved [of "[''2'' \<mapsto> ''page-2'']"
      "[example_issue 1, example_issue 2, example_issue 3]"]
  by (simp add: get_property_def iid_example_issue string_of_nat_1 string_of_nat_2 string_of_nat_3)

text \<open>
  C7. Colors by position. For every list of labels, the options written by the taxonomy
  sync are one per label, in order, each with the label's name and, for a non-empty
  array of colors, the color at the label's position modulo the number of colors. With
  three colors, three labels get the three colors in order and a fourth label gets the
  first color again. \<open>updateMultiSelectOptions\<close> sends these options for the program's
  fixed array of ten colors.
\<close>

theorem colors_by_position:
  "length (multiSelectOptions colors ls) = length ls
   \<and> (\<forall>i < length ls.
        option_name (multiSelectOptions colors ls ! i) = name (ls ! i)
        \<and> (colors \<noteq> [] \<longrightarrow>
             option_color (multiSelectOptions colors ls ! i) =
               Some (colors ! (i mod length colors))))
   \<and> multiSelectOptions [c1, c2, c3] [la, lb, lc] =
       [\<lparr>option_name = name la, option_color = Some c1\<rparr>,
        \<lparr>option_name = name lb, option_color = Some c2\<rparr>,
        \<lparr>option_name = name lc, option_color = Some c3\<rparr>]
   \<and> multiSelectOptions [c1, c2, c3] [la, lb, lc, ld] =
       [\<lparr>option_name = name la, option_color = Some c1\<rparr>,
        \<lparr>option_name = name lb, option_color = Some c2\<rparr>,
        \<lparr>option_name = name lc, option_color = Some c3\<rparr>,
        \<lparr>option_name = name ld, option_color = Some c1\<rparr>]
   \<and> fst (updateMultiSelectOptions w ls h) =
       h @ [DatabasesUpdate (multiSelectOptions availableColors ls)]
   \<and> length availableColors = 10"
proof -
  have a: "length (multiSelectOptions colors ls) = length ls"
    by (simp add: multiSelectOptions_def)
  have b: "\<forall>i < length ls.
        option_name (multiSelectOptions colors ls ! i) = name (ls ! i)
        \<and> (colors \<noteq> [] \<longrightarrow>
             option_color (multiSelectOptions colors ls ! i) =
               Some (colors ! (i mod length colors)))"
    by (simp add: multiSelectOptions_nth array_at_mod_nonempty)
  have c: "multiSelectOptions [c1, c2, c3] [la, lb, lc, ld] =
       [\<lparr>option_name = name la, option_color = Some c1\<rparr>,
        \<lparr>option_name = name lb, option_color = Some c2\<rparr>,
        \<lparr>option_name = name lc, option_color = Some c3\<rparr>,
        \<lparr>option_name = name ld, option_color = Some c1\<rparr>]"
    by (simp add: multiSelectOptions_def enumerate_eq_zip upt_rec array_at_mod_def array_at_def)
  have d: "multiSelectOptions [c1, c2, c3] [la, lb, lc] =
       [\<lparr>option_name = name la, option_color = Some c1\<rparr>,
        \<lparr>option_name = name lb, option_color = Some c2\<rparr>,
        \<lparr>option_name = name lc, option_color = Some c3\<rparr>]"
    by (simp add: multiSelectOptions_def enumerate_eq_zip upt_rec array_at_mod_def array_at_def)
  have e: "fst (updateMultiSelectOptions w ls h) =
       h @ [DatabasesUpdate (multiSelectOptions availableColors ls)]"
    by (simp add: updateMultiSelectOptions_def)
  have f: "length availableColors = 10"
    by (simp add: availableColors_def)
  from a b c d e f show ?thesis
    by blast
qed

theorem colors_by_position_witness:
  "map option_color
     (multiSelectOptions availableColors
        (map (\<lambda>n. \<lparr>name = n, color = ''#000000''\<rparr>)
           [''a'', ''b'', ''c'', ''d'', ''e'', ''f'', ''g'', ''h'', ''i'', ''j'', ''k''])) ! 10
     = Some ''blue''"
proof -
  let ?ls = "map (\<lambda>n. \<lparr>name = n, color = ''#000000''\<rparr>)
           [''a'', ''b'', ''c'', ''d'', ''e'', ''f'', ''g'', ''h'', ''i'', ''j'', ''k'']"
  have l: "(10::nat) < length ?ls" by simp
  have n: "availableColors \<noteq> []" by (simp add: availableColors_def)
  from colors_by_position [of availableColors ?ls] l n
  have "option_color (multiSelectOptions availableColors ?ls ! 10) =
          Some (availableColors ! (10 mod length availableColors))"
    by blast
  moreover have "length (multiSelectOptions availableColors ?ls) = 11"
    by (simp add: multiSelectOptions_def)
  ultimately show ?thesis
    by (simp add: availableColors_def)
qed

text \<open>
  C10. Later records overwrite earlier ones. When the database listing returns two
  entries with the same issue number and no later entry has that number, the id map
  built at start-up maps the number to the page id of the later of the two; with page
  ids distinct, the earlier page's id is then no value of the map, so no update of
  \<open>getNotionOperations\<close> has it as its target, whatever the issues are.
\<close>

theorem later_record_overwrites:
  assumes "getIssuesFromNotionDatabase w h = Some (h', Inr (xs @ e1 # ys @ e2 # zs))"
    and "distinct (map pageId (xs @ e1 # ys @ e2 # zs))"
    and "issueNumber e1 = string_of_nat n" and "issueNumber e2 = string_of_nat n"
    and "\<forall>e \<in> set zs. issueNumber e \<noteq> string_of_nat n"
  shows "\<exists>idmap. setInitialGitLabToNotionIdMap w Map.empty h = Some (h', Inr idmap)
           \<and> get_property idmap n = Some (pageId e2)
           \<and> (\<forall>issues. pageId e1 \<notin>
                 fst ` set (pagesToUpdate (getNotionOperations idmap issues)))"
proof -
  let ?entries = "xs @ e1 # ys @ e2 # zs"
  let ?idmap = "store_ids ?entries Map.empty"
  have s: "setInitialGitLabToNotionIdMap w Map.empty h = Some (h', Inr ?idmap)"
    using assms(1) by (simp add: setInitialGitLabToNotionIdMap_def)
  have "store_ids ((xs @ e1 # ys) @ e2 # zs) Map.empty (string_of_nat n) = Some (pageId e2)"
    using assms(4,5) by (intro store_ids_last_wins) (simp_all add: string_of_nat_not_proto)
  then have g: "get_property ?idmap n = Some (pageId e2)"
    by (simp add: get_property_def)
  have gone: "\<And>k. ?idmap k \<noteq> Some (pageId e1)"
    using assms(2,3,4) by (intro overwritten_value_gone) (simp_all add: string_of_nat_not_proto)
  have "\<forall>issues. pageId e1 \<notin> fst ` set (pagesToUpdate (getNotionOperations ?idmap issues))"
    using gone update_targets_in_map by blast
  with s g show ?thesis
    by blast
qed

theorem later_record_overwrites_witness:
  "\<exists>idmap. setInitialGitLabToNotionIdMap example_world Map.empty [] =
              Some ([DatabasesRetrieve, DatabasesQuery None, ConsoleLog (FetchedFromNotion 2)],
                    Inr idmap)
           \<and> get_property idmap 1 = Some ''page-b''
           \<and> ''page-a'' \<notin> fst ` set (pagesToUpdate
                 (getNotionOperations idmap [example_issue 1, example_issue 2]))"
  using later_record_overwrites [of example_world "[]"
      "[DatabasesRetrieve, DatabasesQuery None, ConsoleLog (FetchedFromNotion 2)]"
      "[]" "\<lparr>pageId = ''page-a'', issueNumber = ''1''\<rparr>" "[]"
      "\<lparr>pageId = ''page-b'', issueNumber = ''1''\<rparr>" "[]" 1]
  by (simp add: example_listing string_of_nat_1) blast

text \<open>
  C2. Pagination. Let a GitLab server that honours \<open>per_page\<close> (no page longer than
  100) answer the successive requests with the pages \<open>ps\<close>, of which exactly the last
  is shorter than 100. Then the lister requests the pages 1, 2, ... up to the number of
  pages, each with \<open>per_page\<close> 100, stops there, and returns the assigned issues of all
  pages in order. For pages of sizes 100, 100, 37 whose issues are all assigned these are
  3 requests and 237 issues; for sizes 100, 100, 0 they are 3 requests and 200 issues:
  the full second page is followed by a request that returns the empty page.
\<close>

theorem pagination_termination:
  assumes "ps \<noteq> []"
    and "\<forall>i<length ps. fetch_issues w (h @ map (\<lambda>j. FetchIssues j 100) [1..<1 + i])
            (1 + i) 100 = Inr (ps ! i)"
    and "\<forall>i<length ps. length (ps ! i) \<le> 100"
    and "\<forall>i<length ps. (length (ps ! i) < 100) = (Suc i = length ps)"
  shows "getGitLabIssuesForRepository w h =
           Some (h @ map (\<lambda>j. FetchIssues j 100) [1..<1 + length ps],
                 Inr (concat (map (filter assigned) ps)))
       \<and> (map length ps = [100, 100, 37] \<and> (\<forall>p \<in> set ps. \<forall>i \<in> set p. assigned i) \<longrightarrow>
            (\<exists>issues. getGitLabIssuesForRepository w h =
                 Some (h @ [FetchIssues 1 100, FetchIssues 2 100, FetchIssues 3 100], Inr issues)
               \<and> length issues = 237))
       \<and> (map length ps = [100, 100, 0] \<and> (\<forall>p \<in> set ps. \<forall>i \<in> set p. assigned i) \<longrightarrow>
            (\<exists>issues. getGitLabIssuesForRepository w h =
                 Some (h @ [FetchIssues 1 100, FetchIssues 2 100, FetchIssues 3 100], Inr issues)
               \<and> length issues = 200))"
proof -
  have full: "\<forall>i<length ps. (length (ps ! i) = pageSize) = (Suc i < length ps)"
    using assms(3,4) unfolding pageSize_def
    by (metis Suc_lessI le_neq_implies_less less_irrefl_nat not_less_eq)
  have main: "getGitLabIssuesForRepository w h =
           Some (h @ map (\<lambda>j. FetchIssues j 100) [1..<1 + length ps],
                 Inr (concat (map (filter assigned) ps)))"
    using issues_loop_pages [of ps w h 1 "[]"] assms(1,2) full
    by (simp add: getGitLabIssuesForRepository_def pageSize_def)
  have all: "(\<forall>p \<in> set ps. \<forall>i \<in> set p. assigned i) \<Longrightarrow> map (filter assigned) ps = ps"
    by (simp add: filter_all map_idI)
  have three: "length ps = 3 \<Longrightarrow>
      map (\<lambda>j. FetchIssues j 100) [1..<1 + length ps] =
        [FetchIssues 1 100, FetchIssues 2 100, FetchIssues 3 100]"
    by (simp add: upt_rec)
  have s1: "map length ps = [100, 100, 37] \<and> (\<forall>p \<in> set ps. \<forall>i \<in> set p. assigned i) \<longrightarrow>
            (\<exists>issues. getGitLabIssuesForRepository w h =
                 Some (h @ [FetchIssues 1 100, FetchIssues 2 100, FetchIssues 3 100], Inr issues)
               \<and> length issues = 237)"
  proof
    assume a: "map length ps = [100, 100, 37] \<and> (\<forall>p \<in> set ps. \<forall>i \<in> set p. assigned i)"
    then have "length (map length ps) = 3" by simp
    then have l: "length ps = 3" by simp
    from a have len: "length (concat ps) = 237"
      using length_concat_sizes [of ps "[100, 100, 37]"] by simp
    from a have ae: "map (filter assigned) ps = ps"
      by (simp add: all)
    have "getGitLabIssuesForRepository w h =
            Some (h @ [FetchIssues 1 100, FetchIssues 2 100, FetchIssues 3 100], Inr (concat ps))"
      using main unfolding ae three [OF l] .
    with len show "\<exists>issues. getGitLabIssuesForRepository w h =
                 Some (h @ [FetchIssues 1 100, FetchIssues 2 100, FetchIssues 3 100], Inr issues)
               \<and> length issues = 237"
      by blast
  qed
  have s2: "map length ps = [100, 100, 0] \<and> (\<forall>p \<in> set ps. \<forall>i \<in> set p. assigned i) \<longrightarrow>
            (\<exists>issues. getGitLabIssuesForRepository w h =
                 Some (h @ [FetchIssues 1 100, FetchIssues 2 100, FetchIssues 3 100], Inr issues)
               \<and> length issues = 200)"
  proof
    assume a: "map length ps = [100, 100, 0] \<and> (\<forall>p \<in> set ps. \<forall>i \<in> set p. assigned i)"
    then have "length (map length ps) = 3" by simp
    then have l: "length ps = 3" by simp
    from a have len: "length (concat ps) = 200"
      using length_concat_sizes [of ps "[100, 100, 0]"] by simp
    from a have ae: "map (filter assigned) ps = ps"
      by (simp add: all)
    have "getGitLabIssuesForRepository w h =
            Some (h @ [FetchIssues 1 100, FetchIssues 2 100, FetchIssues 3 100], Inr (concat ps))"
      using main unfolding ae three [OF l] .
    with len show "\<exists>issues. getGitLabIssuesForRepository w h =
                 Some (h @ [FetchIssues 1 100, FetchIssues 2 100, FetchIssues 3 100], Inr issues)
               \<and> length issues = 200"
      by blast
  qed
  from main s1 s2 show ?thesis
    by blast
qed

theorem pagination_termination_witness:
  "\<exists>issues. getGitLabIssuesForRepository
       (world_with_pages [replicate 100 (example_issue 1), replicate 100 (example_issue 2),
                          replicate 37 (example_issue 3)]) [] =
         Some ([FetchIssues 1 100, FetchIssues 2 100, FetchIssues 3 100], Inr issues)
      \<and> length issues = 237"
proof -
  let ?ps = "[replicate 100 (example_issue 1), replicate 100 (example_issue 2),
              replicate 37 (example_issue 3)]"
  have three: "\<And>P. (\<forall>i<length ?ps. P i) = (P 0 \<and> P 1 \<and> P 2)"
    by (auto simp: less_Suc_eq numeral_2_eq_2)
  have a2: "\<forall>i<length ?ps. fetch_issues (world_with_pages ?ps)
              ([] @ map (\<lambda>j. FetchIssues j 100) [1..<1 + i]) (1 + i) 100 = Inr (?ps ! i)"
    unfolding three by (simp add: fetch_world_with_pages)
  have a3: "\<forall>i<length ?ps. length (?ps ! i) \<le> 100"
    unfolding three by simp
  have a4: "\<forall>i<length ?ps. (length (?ps ! i) < 100) = (Suc i = length ?ps)"
    unfolding three by simp
  have a5: "\<forall>p \<in> set ?ps. \<forall>i \<in> set p. assigned i"
    by (simp add: assigned_example_issue)
  from pagination_termination [of ?ps "world_with_pages ?ps" "[]", OF _ a2 a3 a4] a5
  show ?thesis
    by simp
qed

text \<open>
  C8. Stage order. In every run that returns, normally or with an error, the calls
  appear in the history in stage order: the Notion database is listed, then the issues
  and the labels are fetched from GitLab, then the options of the tags property are
  written, then pages are created, then pages are updated. If any page was created or
  updated, the call that writes the options was made before every such call and was
  fulfilled. A run that does not return hangs in one of the two listing loops, which
  are entered before the options are written.
\<close>

theorem stage_order:
  "(main w = Some (hist, r) \<longrightarrow>
      sorted (stages hist)
      \<and> ((\<exists>e \<in> set hist. is_write e) \<longrightarrow>
           (\<exists>before opts after. hist = before @ DatabasesUpdate opts # after
              \<and> databases_update w before opts \<and> (\<forall>e \<in> set before. \<not> is_write e))))
   \<and> (main w = None \<longrightarrow>
        getIssuesFromNotionDatabase w [] = None
        \<or> (\<exists>h idmap. setInitialGitLabToNotionIdMap w Map.empty [] = Some (h, Inr idmap)
              \<and> getGitLabIssuesForRepository w (h @ [ConsoleLog FetchingIssues]) = None))"
proof (rule conjI; rule impI)
  assume m: "main w = Some (hist, r)"
  then obtain h1 r1 where i: "setInitialGitLabToNotionIdMap w Map.empty [] = Some (h1, r1)"
    by (auto simp: main_def split: option.splits)
  from setInitial_extends [OF i] have "extends 1 [] h1"
    by simp
  then have u1: "ordered_to 1 h1"
    using ordered_to_extends [of 1 "[]" 1 h1] by (simp add: ordered_to_Nil)
  show "sorted (stages hist)
      \<and> ((\<exists>e \<in> set hist. is_write e) \<longrightarrow>
           (\<exists>before opts after. hist = before @ DatabasesUpdate opts # after
              \<and> databases_update w before opts \<and> (\<forall>e \<in> set before. \<not> is_write e)))"
  proof (cases r1)
    case (Inl e)
    with m i have hist: "hist = h1"
      by (simp add: main_def)
    have "ordered_to 5 h1 \<and> ((\<exists>e \<in> set h1. is_write e) \<longrightarrow>
           (\<exists>before opts after. h1 = before @ DatabasesUpdate opts # after
              \<and> databases_update w before opts \<and> (\<forall>e \<in> set before. \<not> is_write e)))"
      using u1 by (rule no_write_yet) simp
    then show ?thesis
      unfolding hist by (simp add: ordered_to_def)
  next
    case (Inr idmap)
    with m i have "syncNotionDatabaseWithGitLab w idmap h1 = Some (hist, r)"
      by (simp add: main_def)
    from sync_order [OF u1 this] show ?thesis
      by (simp add: ordered_to_def)
  qed
next
  assume m: "main w = None"
  show "getIssuesFromNotionDatabase w [] = None
        \<or> (\<exists>h idmap. setInitialGitLabToNotionIdMap w Map.empty [] = Some (h, Inr idmap)
              \<and> getGitLabIssuesForRepository w (h @ [ConsoleLog FetchingIssues]) = None)"
  proof (cases "getIssuesFromNotionDatabase w []")
    case None
    then show ?thesis by simp
  next
    case (Some y)
    obtain h1 r1 where y: "y = (h1, r1)" by (cases y)
    show ?thesis
    proof (cases r1)
      case (Inl e)
      with Some y m show ?thesis
        by (simp add: main_def setInitialGitLabToNotionIdMap_def)
    next
      case (Inr entries)
      with Some y have i: "setInitialGitLabToNotionIdMap w Map.empty [] =
          Some (h1, Inr (store_ids entries Map.empty))"
        by (simp add: setInitialGitLabToNotionIdMap_def)
      with m have s: "syncNotionDatabaseWithGitLab w (store_ids entries Map.empty) h1 = None"
        by (simp add: main_def)
      have "getGitLabIssuesForRepository w (h1 @ [ConsoleLog FetchingIssues]) = None"
      proof (rule ccontr)
        assume "getGitLabIssuesForRepository w (h1 @ [ConsoleLog FetchingIssues]) \<noteq> None"
        then obtain z where "getGitLabIssuesForRepository w (h1 @ [ConsoleLog FetchingIssues]) = Some z"
          by auto
        with s show False
          by (simp add: syncNotionDatabaseWithGitLab_def split: prod.splits sum.splits)
      qed
      with i show ?thesis by blast
    qed
  qed
qed

theorem stage_order_witness:
  "stages [DatabasesRetrieve, DatabasesQuery None, ConsoleLog (FetchedFromNotion 2),
            ConsoleLog FetchingIssues, FetchIssues 1 100, ConsoleLog (FetchedIssues 2),
            FetchLabels, ConsoleLog (FetchedLabels 1),
            DatabasesUpdate [\<lparr>option_name = ''bug'', option_color = Some ''blue''\<rparr>],
            ConsoleLog (NewIssues 1), create_call (example_issue 2),
            ConsoleLog (CompletedBatch 1),
            ConsoleLog (IssuesToUpdate 1), update_call (''page-b'', example_issue 1),
            ConsoleLog (CompletedBatch 1), ConsoleLog Synced] = [1, 1, 2, 2, 3, 4, 5]
   \<and> main example_world \<noteq> None"
  using stage_order [of example_world _ "Inr ()"]
  by (simp add: example_run stages_Cons stages_Nil create_call_def update_call_def)

text \<open>
  C9. The loop decides on the unfiltered length. Whatever the issues of a response page
  are, assigned or not: a page of exactly 100 issues is followed by the request for the
  next page, and a page of any other length ends the loop; in both cases exactly the
  assigned issues of the page are added. In particular a page of 100 issues none of
  which is assigned adds nothing and is still followed by the next request, and a page
  of fewer than 100 issues ends the loop even when all its issues are assigned. For the
  whole listing: a first page that is not full gives one request and its assigned
  issues; a full first page followed by a page that is not full gives two requests and
  the assigned issues of both.
\<close>

theorem termination_uses_unfiltered_length:
  "(fetch_issues w h page 100 = Inr data \<and> length data = 100
      \<longrightarrow> issues_loop w page issues h =
            issues_loop w (page + 1) (issues @ filter assigned data)
              (h @ [FetchIssues page 100]))
   \<and> (fetch_issues w h page 100 = Inr data \<and> length data \<noteq> 100
      \<longrightarrow> issues_loop w page issues h =
            Some (h @ [FetchIssues page 100], Inr (issues @ filter assigned data)))
   \<and> (fetch_issues w h page 100 = Inr data \<and> length data = 100 \<and> (\<forall>i \<in> set data. \<not> assigned i)
      \<longrightarrow> issues_loop w page issues h =
            issues_loop w (page + 1) issues (h @ [FetchIssues page 100]))
   \<and> (fetch_issues w h page 100 = Inr data \<and> length data < 100 \<and> (\<forall>i \<in> set data. assigned i)
      \<longrightarrow> issues_loop w page issues h = Some (h @ [FetchIssues page 100], Inr (issues @ data)))
   \<and> (fetch_issues w h 1 100 = Inr p1 \<and> length p1 \<noteq> 100
      \<longrightarrow> getGitLabIssuesForRepository w h =
            Some (h @ [FetchIssues 1 100], Inr (filter assigned p1)))
   \<and> (fetch_issues w h 1 100 = Inr p1 \<and> length p1 = 100
      \<and> fetch_issues w (h @ [FetchIssues 1 100]) 2 100 = Inr p2 \<and> length p2 \<noteq> 100
      \<longrightarrow> getGitLabIssuesForRepository w h =
            Some (h @ [FetchIssues 1 100, FetchIssues 2 100],
                  Inr (filter assigned p1 @ filter assigned p2)))
   \<and> (fetch_issues w h 1 100 = Inr p1 \<and> length p1 = 100 \<and> (\<forall>i \<in> set p1. \<not> assigned i)
      \<and> fetch_issues w (h @ [FetchIssues 1 100]) 2 100 = Inr p2
      \<and> length p2 < 100 \<and> (\<forall>i \<in> set p2. assigned i)
      \<longrightarrow> getGitLabIssuesForRepository w h =
            Some (h @ [FetchIssues 1 100, FetchIssues 2 100], Inr p2))"
proof -
  have full: "fetch_issues w h page 100 = Inr data \<and> length data = 100
      \<longrightarrow> issues_loop w page issues h =
            issues_loop w (page + 1) (issues @ filter assigned data)
              (h @ [FetchIssues page 100])"
    for w h page data issues
    using issues_loop_full [of w h page data issues] by (simp add: pageSize_def)
  have short: "fetch_issues w h page 100 = Inr data \<and> length data \<noteq> 100
      \<longrightarrow> issues_loop w page issues h =
            Some (h @ [FetchIssues page 100], Inr (issues @ filter assigned data))"
    for w h page data issues
    using issues_loop_short [of w h page data issues] by (simp add: pageSize_def)
  have none: "fetch_issues w h page 100 = Inr data \<and> length data = 100
        \<and> (\<forall>i \<in> set data. \<not> assigned i)
      \<longrightarrow> issues_loop w page issues h =
            issues_loop w (page + 1) issues (h @ [FetchIssues page 100])"
    using full [of w h page data issues] by (simp add: filter_none)
  have all: "fetch_issues w h page 100 = Inr data \<and> length data < 100
        \<and> (\<forall>i \<in> set data. assigned i)
      \<longrightarrow> issues_loop w page issues h = Some (h @ [FetchIssues page 100], Inr (issues @ data))"
    using short [of w h page data issues] by (simp add: filter_all)
  have one: "fetch_issues w h 1 100 = Inr p1 \<and> length p1 \<noteq> 100
      \<longrightarrow> getGitLabIssuesForRepository w h =
            Some (h @ [FetchIssues 1 100], Inr (filter assigned p1))"
    using short [of w h 1 p1 "[]"] by (simp add: getGitLabIssuesForRepository_def)
  have two: "fetch_issues w h 1 100 = Inr p1 \<and> length p1 = 100
      \<and> fetch_issues w (h @ [FetchIssues 1 100]) 2 100 = Inr p2 \<and> length p2 \<noteq> 100
      \<longrightarrow> getGitLabIssuesForRepository w h =
            Some (h @ [FetchIssues 1 100, FetchIssues 2 100],
                  Inr (filter assigned p1 @ filter assigned p2))"
    for p1 p2
  proof
    assume a: "fetch_issues w h 1 100 = Inr p1 \<and> length p1 = 100
      \<and> fetch_issues w (h @ [FetchIssues 1 100]) 2 100 = Inr p2 \<and> length p2 \<noteq> 100"
    then have s1: "issues_loop w 1 [] h =
        issues_loop w 2 (filter assigned p1) (h @ [FetchIssues 1 100])"
      using issues_loop_full [of w h 1 p1 "[]"]
      by (simp add: pageSize_def numeral_2_eq_2)
    from a have s2: "issues_loop w 2 (filter assigned p1) (h @ [FetchIssues 1 100]) =
        Some (h @ [FetchIssues 1 100, FetchIssues 2 100],
              Inr (filter assigned p1 @ filter assigned p2))"
      using issues_loop_short [of w "h @ [FetchIssues 1 100]" 2 p2 "filter assigned p1"]
      by (simp add: pageSize_def)
    show "getGitLabIssuesForRepository w h =
            Some (h @ [FetchIssues 1 100, FetchIssues 2 100],
                  Inr (filter assigned p1 @ filter assigned p2))"
      by (simp only: getGitLabIssuesForRepository_def s1 s2)
  qed
  have ext: "fetch_issues w h 1 100 = Inr p1 \<and> length p1 = 100 \<and> (\<forall>i \<in> set p1. \<not> assigned i)
      \<and> fetch_issues w (h @ [FetchIssues 1 100]) 2 100 = Inr p2
      \<and> length p2 < 100 \<and> (\<forall>i \<in> set p2. assigned i)
      \<longrightarrow> getGitLabIssuesForRepository w h =
            Some (h @ [FetchIssues 1 100, FetchIssues 2 100], Inr p2)"
    using two [of p1 p2] by (simp add: filter_none filter_all)
  from full [of w h page data issues] short [of w h page data issues] none all one two [of p1 p2] ext
  show ?thesis
    by (intro conjI) assumption+
qed

theorem termination_uses_unfiltered_length_witness:
  "getGitLabIssuesForRepository
     (world_with_pages [replicate 99 (unassigned_issue 1) @ [example_issue 5],
                        [unassigned_issue 6, example_issue 2]]) [] =
       Some ([FetchIssues 1 100, FetchIssues 2 100], Inr [example_issue 5, example_issue 2])"
  using termination_uses_unfiltered_length [of
      "world_with_pages [replicate 99 (unassigned_issue 1) @ [example_issue 5],
                         [unassigned_issue 6, example_issue 2]]" "[]" 1
      "[]" "[]" "replicate 99 (unassigned_issue 1) @ [example_issue 5]"
      "[unassigned_issue 6, example_issue 2]"]
  by (simp add: fetch_world_with_pages assigned_example_issue not_assigned_unassigned_issue)

text \<open>
  C6, as the code has it. The claim as stated fails: a record whose text after the
  one-character prefix is no integer (\<open>#abc\<close>) is not skipped but listed under that text
  and stored in the id map, with nothing logged; and a page without the identity
  property throws before the \<open>try\<close> block and ends the listing with the error.
\<close>

theorem unparsable_record_not_skipped:
  "collect_issues [page_with_rich_text ''page-x'' (Some [''#abc''])] [] [] =
     ([], Inr [\<lparr>pageId = ''page-x'', issueNumber = ''abc''\<rparr>])
   \<and> store_ids [\<lparr>pageId = ''page-x'', issueNumber = ''abc''\<rparr>] Map.empty ''abc'' = Some ''page-x''
   \<and> collect_issues [\<lparr>page_id = ''page-y'', properties_id = None\<rparr>] [] [] = ([], Inl TypeError)"
  by (simp add: page_with_rich_text_fields read_page_with_rich_text slice1_def set_property_def)

text \<open>
  C6, amended. When every listed page has the identity property, the loop over the
  pages never throws: a page is skipped, with one \<open>oops\<close> line logged for it, exactly
  when its property holds no \<open>rich_text\<close> array or an empty one; every other page is
  listed, in order, under the text that follows the first code unit of its first
  segment, whether or not that text is a number. The listing then returns these entries
  and the run goes on to build the id map from them, so the skipped pages are in
  neither.
\<close>

theorem unreadable_records_skipped:
  assumes "\<forall>p \<in> set pages. properties_id p \<noteq> None"
  shows "collect_issues pages [] h =
           (h @ replicate (length (filter (\<lambda>p. isl (read_issueNumber p)) pages)) (ConsoleLog Oops),
            Inr (List.map_filter
                  (\<lambda>p. case read_issueNumber p of
                          Inl e \<Rightarrow> None
                        | Inr n \<Rightarrow> Some \<lparr>pageId = page_id p, issueNumber = n\<rparr>) pages))
       \<and> (\<forall>p \<in> set pages. \<forall>prop. properties_id p = Some prop \<longrightarrow>
            isl (read_issueNumber p) = (rich_text prop = None \<or> rich_text prop = Some [])
            \<and> (\<forall>segment segments. rich_text prop = Some (segment # segments) \<longrightarrow>
                 read_issueNumber p = Inr (slice1 segment)))
       \<and> (databases_retrieve w h0 \<and>
            query_loop w None [] (h0 @ [DatabasesRetrieve]) = Some (h, Inr pages) \<longrightarrow>
            setInitialGitLabToNotionIdMap w Map.empty h0 =
              Some (h @ ConsoleLog (FetchedFromNotion (length pages)) #
                      replicate (length (filter (\<lambda>p. isl (read_issueNumber p)) pages))
                        (ConsoleLog Oops),
                    Inr (store_ids
                      (List.map_filter
                        (\<lambda>p. case read_issueNumber p of
                                Inl e \<Rightarrow> None
                              | Inr n \<Rightarrow> Some \<lparr>pageId = page_id p, issueNumber = n\<rparr>) pages)
                      Map.empty)))"
proof -
  note c = collect_issues_eq [OF assms]
  have a: "collect_issues pages [] h =
           (h @ replicate (length (filter (\<lambda>p. isl (read_issueNumber p)) pages)) (ConsoleLog Oops),
            Inr (List.map_filter
                  (\<lambda>p. case read_issueNumber p of
                          Inl e \<Rightarrow> None
                        | Inr n \<Rightarrow> Some \<lparr>pageId = page_id p, issueNumber = n\<rparr>) pages))"
    using c [of "[]" h] by simp
  have b: "\<forall>p \<in> set pages. \<forall>prop. properties_id p = Some prop \<longrightarrow>
            isl (read_issueNumber p) = (rich_text prop = None \<or> rich_text prop = Some [])
            \<and> (\<forall>segment segments. rich_text prop = Some (segment # segments) \<longrightarrow>
                 read_issueNumber p = Inr (slice1 segment))"
    by (auto simp: read_issueNumber_present split: option.splits list.splits)
  have d: "databases_retrieve w h0 \<and>
            query_loop w None [] (h0 @ [DatabasesRetrieve]) = Some (h, Inr pages) \<longrightarrow>
            setInitialGitLabToNotionIdMap w Map.empty h0 =
              Some (h @ ConsoleLog (FetchedFromNotion (length pages)) #
                      replicate (length (filter (\<lambda>p. isl (read_issueNumber p)) pages))
                        (ConsoleLog Oops),
                    Inr (store_ids
                      (List.map_filter
                        (\<lambda>p. case read_issueNumber p of
                                Inl e \<Rightarrow> None
                              | Inr n \<Rightarrow> Some \<lparr>pageId = page_id p, issueNumber = n\<rparr>) pages)
                      Map.empty))"
    using c [of "[]" "h @ [ConsoleLog (FetchedFromNotion (length pages))]"]
    by (simp add: setInitialGitLabToNotionIdMap_def getIssuesFromNotionDatabase_def
          del: collect_issues.simps)
  from a b d show ?thesis
    by blast
qed

theorem unreadable_records_skipped_witness:
  "collect_issues
     [page_with_rich_text ''page-a'' (Some [''#1'']), page_with_rich_text ''page-b'' (Some []),
      page_with_rich_text ''page-c'' None] [] [] =
     ([ConsoleLog Oops, ConsoleLog Oops], Inr [\<lparr>pageId = ''page-a'', issueNumber = ''1''\<rparr>])"
  using unreadable_records_skipped [of
      "[page_with_rich_text ''page-a'' (Some [''#1'']), page_with_rich_text ''page-b'' (Some []),
        page_with_rich_text ''page-c'' None]" "[]"]
  by (simp add: page_with_rich_text_fields read_page_with_rich_text List.map_filter_simps
        slice1_def numeral_2_eq_2 del: collect_issues.simps)

end
